theory Spec2Isabelle
  imports Complex_Main "HOL-Library.Word"
begin

unbundle bit_operations_syntax

section \<open>Data model of layout.h\<close>

text \<open>
  \<open>size_t\<close> and \<open>uintptr_t\<close> are 64-bit unsigned integers on the LP64 targets the
  repository builds for; \<open>+\<close>, \<open>-\<close> and \<open>*\<close> on them wrap around.
\<close>

type_synonym size_t = "64 word"
type_synonym uintptr_t = "64 word"

text \<open>
  What the compiler knows about a C++ type \<open>T\<close> and the header asks for:
  \<open>sizeof(T)\<close>, \<open>alignof(T)\<close>, \<open>std::is_reference_v<T>\<close>, \<open>std::is_volatile_v<T>\<close>.
\<close>

record ctype =
  sizeof :: size_t
  alignof :: size_t
  is_reference :: bool
  is_volatile :: bool

text \<open>
  A template argument of \<open>Layout\<close>: either a type \<open>T\<close> itself or the tag
  \<open>Aligned<T, N>\<close>, which is declared but never defined.
\<close>

datatype elem = Plain ctype | Aligned ctype size_t

text \<open>The messages of the header's \<open>static_assert\<close>s and \<open>assert\<close>s.\<close>

datatype error =
    AtLeastOneFieldRequired
  | CustomAlignmentTooLow
  | InvalidElementType
  | InternalError
  | TooManySizes
  | IndexOutOfBounds
  | SizesNotAllSpecified
  | PointerNotAligned

text \<open>\<open>Type<T>::type\<close>: the element type, with the \<open>Aligned\<close> tag removed.\<close>

fun Type :: "elem \<Rightarrow> ctype" where
  "Type (Plain T) = T"
| "Type (Aligned T N) = T"

text \<open>\<open>SizeOf<T>\<close>: \<open>sizeof\<close> of the element type, whatever the tag.\<close>

fun SizeOf :: "elem \<Rightarrow> size_t" where
  "SizeOf (Plain T) = sizeof T"
| "SizeOf (Aligned T N) = sizeof T"

text \<open>\<open>AlignOf<T>::value\<close>: the natural alignment, or the override \<open>N\<close>.\<close>

fun AlignOf :: "elem \<Rightarrow> size_t" where
  "AlignOf (Plain T) = alignof T"
| "AlignOf (Aligned T N) = N"

text \<open>
  The \<open>static_assert(N % alignof(T) == 0, ...)\<close> inside \<open>AlignOf<Aligned<T, N>>\<close>;
  the primary template has none.
\<close>

fun AlignOf_static_assert :: "elem \<Rightarrow> bool" where
  "AlignOf_static_assert (Plain T) = True"
| "AlignOf_static_assert (Aligned T N) = (N mod alignof T = 0)"

subsection \<open>namespace adl_barrier\<close>

definition IsPow2 :: "size_t \<Rightarrow> bool" where
  "IsPow2 n = (n AND (n - 1) = 0)"

definition Align :: "size_t \<Rightarrow> size_t \<Rightarrow> size_t" where
  "Align n m = (n + m - 1) AND NOT (m - 1)"

text \<open>
  \<open>Min\<close> is only applied to numbers of template arguments, which are small
  compile-time constants: they are natural numbers here.
\<close>

definition Min_sz :: "nat \<Rightarrow> nat \<Rightarrow> nat" where
  "Min_sz a b = (if b < a then b else a)"

fun Max_sz :: "size_t \<Rightarrow> size_t list \<Rightarrow> size_t" where
  "Max_sz a [] = a"
| "Max_sz a (b # rest) = Max_sz (if b < a then a else b) rest"

subsection \<open>IsLegalElementType\<close>

text \<open>
  The tag \<open>Aligned<T, N>\<close> is a class type, neither a reference nor volatile, so for
  it only the two tests on \<open>Type<T>::type\<close> can fail; for a plain \<open>T\<close> the tests on
  \<open>T\<close> and on \<open>Type<T>::type\<close> coincide.
\<close>

fun IsLegalElementType :: "elem \<Rightarrow> bool" where
  "IsLegalElementType (Plain T) =
     (\<not> is_reference T \<and> \<not> is_volatile T \<and>
      \<not> is_reference (Type (Plain T)) \<and> \<not> is_volatile (Type (Plain T)) \<and>
      IsPow2 (AlignOf (Plain T)))"
| "IsLegalElementType (Aligned T N) =
     (\<not> is_reference (Type (Aligned T N)) \<and> \<not> is_volatile (Type (Aligned T N)) \<and>
      IsPow2 (AlignOf (Aligned T N)))"

text \<open>
  Naming \<open>Aligned<T, N>\<close> as an element type instantiates \<open>AlignOf\<close> (its assertion
  must hold) and then \<open>IsLegalElementType\<close> must be true; otherwise compilation stops.
\<close>

definition check_element :: "elem \<Rightarrow> error option" where
  "check_element e =
     (if \<not> AlignOf_static_assert e then Some CustomAlignmentTooLow
      else if \<not> IsLegalElementType e then Some InvalidElementType
      else None)"

text \<open>
  \<open>std::conjunction_v<IsLegalElementType<Elements>...>\<close>: evaluating it instantiates
  \<open>AlignOf\<close> for the elements, whose own assertions fire first; then the conjunction
  must be true.
\<close>

definition check_elements :: "elem list \<Rightarrow> error option" where
  "check_elements Ts =
     (if \<not> list_all AlignOf_static_assert Ts then Some CustomAlignmentTooLow
      else if \<not> list_all IsLegalElementType Ts then Some InvalidElementType
      else None)"

subsection \<open>LayoutImpl\<close>

text \<open>
  An instance of \<open>LayoutImpl<std::tuple<Elements...>, index_sequence<SizeSeq...>,
  index_sequence<OffsetSeq...>>\<close>: the element types, the length of \<open>OffsetSeq\<close>, and
  the member \<open>size_\<close> (here \<open>size_mem\<close>), whose length is \<open>NumSizes\<close>.
\<close>

record layout =
  Elements :: "elem list"
  NumOffsets :: nat
  size_mem :: "size_t list"

definition NumTypes :: "layout \<Rightarrow> nat" where
  "NumTypes L = length (Elements L)"

definition NumSizes :: "layout \<Rightarrow> nat" where
  "NumSizes L = length (size_mem L)"

text \<open>
  The constructor \<open>LayoutImpl(IntToSize<SizeSeq>... sizes) : size_{sizes...}\<close>,
  together with the class's \<open>static_assert\<close>s, which are checked when the class is
  instantiated.
\<close>

definition LayoutImpl :: "elem list \<Rightarrow> nat \<Rightarrow> size_t list \<Rightarrow> error + layout" where
  "LayoutImpl Ts numOffsets sizes =
     (if \<not> 0 < length Ts then Inl AtLeastOneFieldRequired
      else case check_elements Ts of
             Some err \<Rightarrow> Inl err
           | None \<Rightarrow>
               if numOffsets \<noteq> Min_sz (length Ts) (length sizes + 1) then Inl InternalError
               else Inr \<lparr>Elements = Ts, NumOffsets = numOffsets, size_mem = sizes\<rparr>)"

text \<open>The alias \<open>LayoutType<NumSizes, Ts...>\<close>, which computes \<open>OffsetSeq\<close>.\<close>

definition LayoutType :: "elem list \<Rightarrow> size_t list \<Rightarrow> error + layout" where
  "LayoutType Ts sizes = LayoutImpl Ts (Min_sz (length Ts) (length sizes + 1)) sizes"

text \<open>\<open>Layout<Ts...>::Partial(sizes...)\<close>.\<close>

definition Partial :: "elem list \<Rightarrow> size_t list \<Rightarrow> error + layout" where
  "Partial Ts sizes =
     (if \<not> length sizes \<le> length Ts then Inl TooManySizes else LayoutType Ts sizes)"

text \<open>
  The constructor \<open>Layout<Ts...>(sizes...)\<close>, which takes one size for each element
  type.
\<close>

definition Layout :: "elem list \<Rightarrow> size_t list \<Rightarrow> error + layout" where
  "Layout Ts sizes =
     (if length sizes \<noteq> length Ts then Inl SizesNotAllSpecified else LayoutType Ts sizes)"

text \<open>\<open>Alignment()\<close>: \<open>Max(AlignOf<Elements>::value...)\<close>.\<close>

text \<open>
  With no element type there is no call \<open>Max()\<close> to compile; the class asserts
  \<open>sizeof...(Elements) > 0\<close>, so the first equation is never reached from a layout.
\<close>

fun Alignment_of :: "elem list \<Rightarrow> size_t" where
  "Alignment_of [] = 0"
| "Alignment_of (e # es) = Max_sz (AlignOf e) (map AlignOf es)"

definition Alignment :: "layout \<Rightarrow> size_t" where
  "Alignment L = Alignment_of (Elements L)"

text \<open>
  \<open>Offset<N>()\<close>. The overload for \<open>N == 0\<close> returns 0 and asserts nothing; the
  overload for \<open>N != 0\<close> asserts \<open>N < NumOffsets\<close> and recurses on \<open>N - 1\<close>.
\<close>

fun Offset :: "layout \<Rightarrow> nat \<Rightarrow> error + size_t" where
  "Offset L 0 = Inr 0"
| "Offset L (Suc n) =
     (if \<not> Suc n < NumOffsets L then Inl IndexOutOfBounds
      else case Offset L n of
             Inl e \<Rightarrow> Inl e
           | Inr off \<Rightarrow>
               Inr (Align (off + SizeOf (Elements L ! n) * (size_mem L ! n))
                          (AlignOf (Elements L ! Suc n))))"

text \<open>\<open>Size<N>()\<close> and \<open>Sizes()\<close>.\<close>

definition Size :: "layout \<Rightarrow> nat \<Rightarrow> error + size_t" where
  "Size L n = (if \<not> n < NumSizes L then Inl IndexOutOfBounds else Inr (size_mem L ! n))"

fun collect :: "(error + 'a) list \<Rightarrow> error + 'a list" where
  "collect [] = Inr []"
| "collect (Inl e # rs) = Inl e"
| "collect (Inr v # rs) = (case collect rs of Inl e \<Rightarrow> Inl e | Inr vs \<Rightarrow> Inr (v # vs))"

definition Sizes :: "layout \<Rightarrow> error + size_t list" where
  "Sizes L = collect (map (Size L) [0 ..< NumSizes L])"

text \<open>\<open>Offsets()\<close>: \<open>{{Offset<OffsetSeq>()...}}\<close>.\<close>

definition Offsets :: "layout \<Rightarrow> error + size_t list" where
  "Offsets L = collect (map (Offset L) [0 ..< NumOffsets L])"

text \<open>\<open>AllocSize()\<close>.\<close>

definition AllocSize :: "layout \<Rightarrow> error + size_t" where
  "AllocSize L =
     (if NumTypes L \<noteq> NumSizes L then Inl SizesNotAllSpecified
      else case Offset L (NumTypes L - 1) of
             Inl e \<Rightarrow> Inl e
           | Inr off \<Rightarrow>
               Inr (off + SizeOf (Elements L ! (NumTypes L - 1)) * (size_mem L ! (NumTypes L - 1))))"

text \<open>
  \<open>Pointer<N>(p)\<close>, as an address: the \<open>assert\<close> on the alignment of \<open>p\<close> (a
  remainder by zero has no value in C++), then \<open>p + Offset<N>()\<close>.
\<close>

definition Pointer :: "layout \<Rightarrow> nat \<Rightarrow> uintptr_t \<Rightarrow> error + uintptr_t" where
  "Pointer L n p =
     (case Offset L n of
        Inl e \<Rightarrow> Inl e
      | Inr off \<Rightarrow>
          if Alignment L = 0 \<or> p mod Alignment L \<noteq> 0 then Inl PointerNotAligned
          else Inr (p + off))"

text \<open>\<open>Pointers(p)\<close>: \<open>Pointer<OffsetSeq>(p)...\<close>.\<close>

definition Pointers :: "layout \<Rightarrow> uintptr_t \<Rightarrow> error + uintptr_t list" where
  "Pointers L p = collect (map (\<lambda>n. Pointer L n p) [0 ..< NumOffsets L])"

text \<open>
  \<open>Slice<N>(p)\<close>: the span \<open>(Pointer<N>(p), Size<N>())\<close>, as a start address and a
  number of elements. The assertion of \<open>Size<N>\<close> is a compile-time one and comes before
  the run-time assertion of \<open>Pointer<N>\<close>.
\<close>

definition Slice :: "layout \<Rightarrow> nat \<Rightarrow> uintptr_t \<Rightarrow> error + (uintptr_t \<times> size_t)" where
  "Slice L n p =
     (case Size L n of
        Inl e \<Rightarrow> Inl e
      | Inr c \<Rightarrow> (case Pointer L n p of Inl e \<Rightarrow> Inl e | Inr a \<Rightarrow> Inr (a, c)))"

text \<open>\<open>Slices(p)\<close>: \<open>Slice<SizeSeq>(p)...\<close>.\<close>

definition Slices :: "layout \<Rightarrow> uintptr_t \<Rightarrow> error + (uintptr_t \<times> size_t) list" where
  "Slices L p = collect (map (\<lambda>n. Slice L n p) [0 ..< NumSizes L])"

text \<open>
  \<open>PoisonPadding<Char, N>(p)\<close>, with the regions (address, length) it hands to
  \<open>ASAN_POISON_MEMORY_REGION\<close> as its result; \<open>asan\<close> says whether
  \<open>ADDRESS_SANITIZER\<close> is defined. The regions lie in the caller's buffer.
\<close>

fun PoisonPadding_from ::
  "bool \<Rightarrow> layout \<Rightarrow> nat \<Rightarrow> uintptr_t \<Rightarrow> error + (uintptr_t \<times> size_t) list" where
  "PoisonPadding_from asan L 0 p =
     (case Pointer L 0 p of Inl e \<Rightarrow> Inl e | Inr a \<Rightarrow> Inr [])"
| "PoisonPadding_from asan L (Suc n) p =
     (if \<not> Suc n < NumOffsets L then Inl IndexOutOfBounds
      else if \<not> asan then Inr []
      else case PoisonPadding_from asan L n p of
             Inl e \<Rightarrow> Inl e
           | Inr rs \<Rightarrow>
               if AlignOf (Elements L ! n) mod AlignOf (Elements L ! Suc n) \<noteq> 0 then
                 (case Offset L n of
                    Inl e \<Rightarrow> Inl e
                  | Inr off \<Rightarrow>
                      (case Offset L (Suc n) of
                         Inl e \<Rightarrow> Inl e
                       | Inr off' \<Rightarrow>
                           Inr (rs @ [(p + (off + SizeOf (Elements L ! n) * (size_mem L ! n)),
                                       off' - (off + SizeOf (Elements L ! n) * (size_mem L ! n)))])))
               else Inr rs)"

definition PoisonPadding ::
  "bool \<Rightarrow> layout \<Rightarrow> uintptr_t \<Rightarrow> error + (uintptr_t \<times> size_t) list" where
  "PoisonPadding asan L p = PoisonPadding_from asan L (NumOffsets L - 1) p"

text \<open>How \<open>fmt::format\<close> renders a \<open>size_t\<close> for \<open>{}\<close>: in decimal.\<close>

fun decimal :: "nat \<Rightarrow> string" where
  "decimal n =
     (if n < 10 then [''0123456789'' ! n]
      else decimal (n div 10) @ [''0123456789'' ! (n mod 10)])"

text \<open>
  \<open>DebugString()\<close>. \<open>TypeName\<close> is the platform's rendering of a type's name (it is
  empty without RTTI). The format string of the loop has two replacement fields, so of
  its four arguments only \<open>size_[i]\<close> and \<open>offsets[i + 1]\<close> are printed.
\<close>

definition DebugString :: "(ctype \<Rightarrow> string) \<Rightarrow> layout \<Rightarrow> error + string" where
  "DebugString TypeName L =
     (case Offsets L of
        Inl e \<Rightarrow> Inl e
      | Inr offsets \<Rightarrow>
          let res0 = ''@0'' @ TypeName (Type (Elements L ! 0)) @ ''(''
                       @ decimal (unat (SizeOf (Elements L ! 0))) @ '')'';
              res1 = foldl (\<lambda>res i. res @ ''['' @ decimal (unat (size_mem L ! i)) @ '']; @(''
                                       @ decimal (unat (offsets ! (i + 1))) @ '')'')
                           res0 [0 ..< NumOffsets L - 1]
          in Inr (if NumTypes L = NumSizes L \<and> 0 < NumSizes L
                  then res1 @ ''['' @ decimal (unat (size_mem L ! (NumSizes L - 1))) @ '']''
                  else res1))"

subsection \<open>Calls on a descriptor object\<close>

text \<open>
  The public member functions of \<open>LayoutImpl\<close>, with an index where the source has a
  template argument \<open>N\<close> (the overloads taking a type \<open>T\<close> resolve to these at compile
  time through \<open>ElementIndex<T>()\<close>), and what they return.
\<close>

datatype operation =
    CallAlignment
  | CallOffset nat
  | CallOffsets
  | CallSize nat
  | CallSizes
  | CallPointer nat uintptr_t
  | CallPointers uintptr_t
  | CallSlice nat uintptr_t
  | CallSlices uintptr_t
  | CallAllocSize
  | CallPoisonPadding uintptr_t
  | CallDebugString

datatype result =
    Number size_t
  | Numbers "size_t list"
  | Address uintptr_t
  | Addresses "uintptr_t list"
  | Span uintptr_t size_t
  | Spans "(uintptr_t \<times> size_t) list"
  | Poisoned "(uintptr_t \<times> size_t) list"
  | Text string

fun returning :: "('a \<Rightarrow> result) \<Rightarrow> error + 'a \<Rightarrow> error + result" where
  "returning f (Inl e) = Inl e"
| "returning f (Inr v) = Inr (f v)"

text \<open>
  A call on an object, as a step on the object's state: what the call returns and the
  object after the call. \<open>Alignment\<close> is \<open>static\<close> and every other member function is
  \<open>const\<close>, none has an assignment to \<open>size_\<close> in its body, and the class has no
  \<open>mutable\<close> member: each leaves the object as it found it.
\<close>

fun call :: "(ctype \<Rightarrow> string) \<Rightarrow> bool \<Rightarrow> operation \<Rightarrow> layout \<Rightarrow> (error + result) \<times> layout" where
  "call tn asan CallAlignment L = (Inr (Number (Alignment L)), L)"
| "call tn asan (CallOffset n) L = (returning Number (Offset L n), L)"
| "call tn asan CallOffsets L = (returning Numbers (Offsets L), L)"
| "call tn asan (CallSize n) L = (returning Number (Size L n), L)"
| "call tn asan CallSizes L = (returning Numbers (Sizes L), L)"
| "call tn asan (CallPointer n p) L = (returning Address (Pointer L n p), L)"
| "call tn asan (CallPointers p) L = (returning Addresses (Pointers L p), L)"
| "call tn asan (CallSlice n p) L = (returning (\<lambda>(a, c). Span a c) (Slice L n p), L)"
| "call tn asan (CallSlices p) L = (returning Spans (Slices L p), L)"
| "call tn asan CallAllocSize L = (returning Number (AllocSize L), L)"
| "call tn asan (CallPoisonPadding p) L = (returning Poisoned (PoisonPadding asan L p), L)"
| "call tn asan CallDebugString L = (returning Text (DebugString tn L), L)"

text \<open>A sequence of calls on the same object, one after the other.\<close>

fun run ::
  "(ctype \<Rightarrow> string) \<Rightarrow> bool \<Rightarrow> operation list \<Rightarrow> layout \<Rightarrow> (error + result) list \<times> layout" where
  "run tn asan [] L = ([], L)"
| "run tn asan (op # ops) L =
     (case call tn asan op L of
        (r, L') \<Rightarrow> (case run tn asan ops L' of (rs, L'') \<Rightarrow> (r # rs, L'')))"

subsection \<open>The element types of the tests\<close>

text \<open>
  \<open>char\<close>, \<open>int\<close> and \<open>double\<close> with the sizes and alignments that the assertions of
  the alignment test presuppose (1, 4 and 8 bytes, naturally aligned).
\<close>

definition char_t :: ctype where
  "char_t = \<lparr>sizeof = 1, alignof = 1, is_reference = False, is_volatile = False\<rparr>"

definition int_t :: ctype where
  "int_t = \<lparr>sizeof = 4, alignof = 4, is_reference = False, is_volatile = False\<rparr>"

definition double_t :: ctype where
  "double_t = \<lparr>sizeof = 8, alignof = 8, is_reference = False, is_volatile = False\<rparr>"

text \<open>The element types \<open>Layout<char, Aligned<int, 32>, double>\<close> of the alignment test.\<close>

abbreviation custom_types :: "elem list" where
  "custom_types \<equiv> [Plain char_t, Aligned int_t 32, Plain double_t]"


section \<open>Bit arithmetic of \<open>IsPow2\<close> and \<open>Align\<close>\<close>

lemma nat_and_pred_zero:
  fixes n :: nat
  shows "0 < n \<Longrightarrow> n AND (n - 1) = 0 \<Longrightarrow> \<exists>k. n = 2 ^ k"
proof (induction n rule: less_induct)
  case (less n)
  show ?case
  proof (cases "even n")
    case True
    then obtain m where m: "n = 2 * m" by (auto elim: evenE)
    with less.prems have mpos: "0 < m" by simp
    have pred: "n - 1 = 2 * (m - 1) + 1" using m mpos by simp
    have "n AND (n - 1) = 2 * (m AND (m - 1))"
      unfolding pred unfolding m by (subst and_nat_rec) simp
    with less.prems have "m AND (m - 1) = 0" by simp
    moreover have "m < n" using m mpos by simp
    ultimately obtain k where "m = 2 ^ k" using less.IH mpos by blast
    then have "n = 2 ^ Suc k" using m by simp
    then show ?thesis by blast
  next
    case False
    then obtain m where m: "n = 2 * m + 1" by (auto elim: oddE)
    have "n AND (n - 1) = 2 * (m AND m)"
      unfolding m by (subst and_nat_rec) simp
    with less.prems have "m = 0" by simp
    then have "n = 2 ^ 0" using m by simp
    then show ?thesis by blast
  qed
qed

lemma IsPow2_nonzero_exp:
  assumes "IsPow2 m" and "m \<noteq> 0"
  shows "\<exists>k<64. m = 2 ^ k"
proof -
  have "unat (m AND (m - 1)) = 0" using assms(1) by (simp add: IsPow2_def)
  then have "unat m AND (unat m - 1) = 0"
    using assms(2) by (simp add: unsigned_and_eq unat_minus_one)
  moreover have "0 < unat m" using assms(2) by (simp add: unat_gt_0)
  ultimately obtain k where k: "unat m = 2 ^ k" using nat_and_pred_zero by blast
  have "unat m < 2 ^ 64" using unsigned_less [of m] by simp
  then have "(2::nat) ^ k < 2 ^ 64" using k by simp
  then have "k < 64" by (rule power_less_imp_less_exp [rotated]) simp
  moreover have "m = 2 ^ k"
  proof -
    have "m = of_nat (unat m)" by simp
    also have "\<dots> = 2 ^ k" unfolding k by simp
    finally show ?thesis .
  qed
  ultimately show ?thesis by blast
qed

lemma exp_IsPow2: "k < 64 \<Longrightarrow> IsPow2 (2 ^ k)"
  unfolding IsPow2_def
  by (rule bit_word_eqI) (auto simp add: bit_simps simp flip: mask_eq_exp_minus_1)

lemma and_not_mask_push_drop:
  fixes x :: size_t
  shows "x AND NOT (mask k) = push_bit k (drop_bit k x)"
  by (rule bit_word_eqI) (auto simp add: bit_simps)

lemma unat_and_not_mask:
  fixes x :: size_t
  shows "unat (x AND NOT (mask k)) = unat x div 2 ^ k * 2 ^ k"
proof -
  have le: "unat x div 2 ^ k * 2 ^ k \<le> unat x" by simp
  have "unat x < 2 ^ 64" using unsigned_less [of x] by simp
  with le have lt: "unat x div 2 ^ k * 2 ^ k < 2 ^ 64" by linarith
  have tb: "take_bit 64 (unat x) = unat x"
    using \<open>unat x < 2 ^ 64\<close> by (simp add: take_bit_nat_eq_self)
  have "unat (push_bit k (drop_bit k x)) = take_bit 64 (push_bit k (drop_bit k (unat x)))"
    by (simp add: unsigned_push_bit_eq unsigned_drop_bit_eq tb)
  also have "\<dots> = (unat x div 2 ^ k * 2 ^ k) mod 2 ^ 64"
    by (simp add: take_bit_eq_mod push_bit_eq_mult drop_bit_eq_div)
  also have "\<dots> = unat x div 2 ^ k * 2 ^ k" using lt by simp
  finally show ?thesis by (simp add: and_not_mask_push_drop)
qed

lemma unat_exp:
  assumes "k < 64"
  shows "unat ((2 :: size_t) ^ k) = 2 ^ k"
proof -
  have lt: "(2::nat) ^ k < 2 ^ 64"
    by (rule power_strict_increasing) (use assms in simp_all)
  have "unat ((2 :: size_t) ^ k) = unat (word_of_nat (2 ^ k) :: size_t)" by simp
  also have "\<dots> = 2 ^ k mod 2 ^ 64" by (simp only: unat_of_nat) simp
  also have "\<dots> = 2 ^ k" using lt by (rule mod_less)
  finally show ?thesis .
qed

lemma Align_exp:
  "Align n (2 ^ k) = (n + mask k) AND NOT (mask k)"
  by (simp add: Align_def mask_eq_exp_minus_1 algebra_simps)

lemma unat_Align_exp:
  assumes "k < 64"
  shows "unat (Align n (2 ^ k)) = ((unat n + (2 ^ k - 1)) mod 2 ^ 64) div 2 ^ k * 2 ^ k"
proof -
  have "unat (n + mask k) = (unat n + unat (mask k :: size_t)) mod 2 ^ 64"
    by (simp add: unat_word_ariths)
  moreover have "unat (mask k :: size_t) = 2 ^ k - 1"
  proof -
    have "unat (mask k :: size_t) = unat ((2 :: size_t) ^ k - 1)"
      by (simp add: mask_eq_exp_minus_1)
    also have "\<dots> = unat ((2 :: size_t) ^ k) - 1"
      using assms by (intro unat_minus_one) (simp add: power_eq_0_iff word_size)
    also have "unat ((2 :: size_t) ^ k) = 2 ^ k"
      using assms by (rule unat_exp)
    finally show ?thesis .
  qed
  ultimately show ?thesis
    by (simp add: Align_exp unat_and_not_mask)
qed

lemma ceiling_nat_div:
  fixes a b :: nat
  assumes "0 < b"
  shows "\<lceil>real a / real b\<rceil> = int ((a + b - 1) div b)"
proof -
  define q where "q = (a + b - 1) div b"
  have lo: "q * b \<le> a + b - 1" unfolding q_def by simp
  have hi: "a + b - 1 < (q + 1) * b"
    unfolding q_def using assms dividend_less_div_times [of b "a + b - 1"] by (simp add: algebra_simps)
  have up: "a \<le> q * b" using hi assms by (simp add: algebra_simps)
  have dn: "q * b < a + b" using lo assms by linarith
  have "real a / real b \<le> real q"
    using up assms by (simp add: pos_divide_le_eq flip: of_nat_mult)
  moreover have "real q - 1 < real a / real b"
  proof -
    have "real (q * b) < real (a + b)" using dn by (rule iffD2 [OF of_nat_less_iff])
    then have "(real q - 1) * real b < real a" by (simp add: algebra_simps)
    then show ?thesis using assms by (simp add: pos_less_divide_eq)
  qed
  ultimately have "\<lceil>real a / real b\<rceil> = int q"
    by (intro ceiling_unique) simp_all
  then show ?thesis by (simp add: q_def)
qed

lemma unat_Align_exact:
  assumes "k < 64" and "unat n + 2 ^ k - 1 < 2 ^ 64"
  shows "unat (Align n (2 ^ k)) = (unat n + 2 ^ k - 1) div 2 ^ k * 2 ^ k"
proof -
  have "unat n + (2 ^ k - 1) = unat n + 2 ^ k - 1" by simp
  then show ?thesis using assms by (simp add: unat_Align_exp)
qed

lemma round_up_least:
  fixes a b :: nat
  assumes "0 < b"
  shows "b dvd (a + b - 1) div b * b"
    and "a \<le> (a + b - 1) div b * b"
    and "b dvd q \<Longrightarrow> a \<le> q \<Longrightarrow> (a + b - 1) div b * b \<le> q"
proof -
  show "b dvd (a + b - 1) div b * b" by simp
  have hi: "a + b - 1 < ((a + b - 1) div b + 1) * b"
    using assms dividend_less_div_times [of b "a + b - 1"] by (simp add: algebra_simps)
  then show "a \<le> (a + b - 1) div b * b" using assms by (simp add: algebra_simps)
  assume "b dvd q" and "a \<le> q"
  from \<open>b dvd q\<close> obtain c where c: "q = c * b" by (metis dvd_def mult.commute)
  have "a + b - 1 < (c + 1) * b" using \<open>a \<le> q\<close> c assms by (simp add: algebra_simps)
  then have "(a + b - 1) div b < c + 1" using assms by (simp add: div_less_iff_less_mult)
  then have "(a + b - 1) div b \<le> c" by simp
  then show "(a + b - 1) div b * b \<le> q" unfolding c by simp
qed

section \<open>Construction and the offsets that can be computed\<close>

lemma check_elements_None:
  "check_elements Ts = None \<longleftrightarrow> (\<forall>e\<in>set Ts. check_element e = None)"
  by (auto simp add: check_elements_def check_element_def list_all_iff)

lemma LayoutImpl_Inr:
  assumes "LayoutImpl Ts k sizes = Inr L"
  shows "L = \<lparr>Elements = Ts, NumOffsets = k, size_mem = sizes\<rparr>"
    and "Ts \<noteq> []"
    and "k = Min_sz (length Ts) (length sizes + 1)"
    and "\<forall>e\<in>set Ts. check_element e = None"
  using assms
  by (auto simp add: LayoutImpl_def check_elements_None split: if_splits option.splits)

lemma Partial_Inr:
  assumes "Partial Ts cs = Inr L"
  shows "Elements L = Ts" and "size_mem L = cs"
    and "NumOffsets L = min (length Ts) (length cs + 1)"
    and "length cs \<le> length Ts" and "Ts \<noteq> []"
    and "\<forall>e\<in>set Ts. AlignOf_static_assert e \<and> IsLegalElementType e"
proof -
  from assms have le: "length cs \<le> length Ts" and lt: "LayoutType Ts cs = Inr L"
    by (auto simp add: Partial_def split: if_splits)
  from lt have impl: "LayoutImpl Ts (Min_sz (length Ts) (length cs + 1)) cs = Inr L"
    by (simp add: LayoutType_def)
  note facts = LayoutImpl_Inr [OF impl]
  show "Elements L = Ts" "size_mem L = cs" using facts(1) by simp_all
  show "NumOffsets L = min (length Ts) (length cs + 1)"
    using facts(1) by (simp add: Min_sz_def min_def)
  show "length cs \<le> length Ts" by (rule le)
  show "Ts \<noteq> []" by (rule facts(2))
  show "\<forall>e\<in>set Ts. AlignOf_static_assert e \<and> IsLegalElementType e"
    using facts(4) by (auto simp add: check_element_def split: if_splits)
qed

lemma Partial_succeeds:
  assumes "Ts \<noteq> []" and "length cs \<le> length Ts"
    and "\<forall>e\<in>set Ts. AlignOf_static_assert e \<and> IsLegalElementType e"
  shows "Partial Ts cs =
    Inr \<lparr>Elements = Ts, NumOffsets = min (length Ts) (length cs + 1), size_mem = cs\<rparr>"
proof -
  have "check_elements Ts = None"
    using assms(3) by (simp add: check_elements_None check_element_def)
  then show ?thesis
    using assms(1,2) by (simp add: Partial_def LayoutType_def LayoutImpl_def Min_sz_def min_def)
qed

lemma Layout_eq_Partial:
  "length cs = length Ts \<Longrightarrow> Layout Ts cs = Partial Ts cs"
  by (simp add: Layout_def Partial_def)

lemma custom_types_legal:
  "\<forall>e\<in>set custom_types. AlignOf_static_assert e \<and> IsLegalElementType e"
  by (simp add: char_t_def int_t_def double_t_def IsPow2_def)

lemma custom_Partial:
  "length cs \<le> 3 \<Longrightarrow> Partial custom_types cs =
     Inr \<lparr>Elements = custom_types, NumOffsets = min 3 (length cs + 1), size_mem = cs\<rparr>"
  by (rule Partial_succeeds [THEN trans]) (simp_all add: custom_types_legal del: set_simps)

lemma legal_IsPow2: "IsLegalElementType e \<Longrightarrow> IsPow2 (AlignOf e)"
  by (cases e) simp_all

lemma Offset_defined:
  "i < NumOffsets L \<Longrightarrow> \<exists>v. Offset L i = Inr v"
proof (induction i)
  case 0
  show ?case by simp
next
  case (Suc i)
  then obtain v where "Offset L i = Inr v" by auto
  with Suc.prems show ?case by simp
qed

lemma Offset_rejected:
  "0 < i \<Longrightarrow> NumOffsets L \<le> i \<Longrightarrow> Offset L i = Inl IndexOutOfBounds"
  by (cases i) simp_all

lemma Offset_Suc:
  assumes "Suc i < NumOffsets L" and "Offset L i = Inr off"
  shows "Offset L (Suc i) =
    Inr (Align (off + SizeOf (Elements L ! i) * (size_mem L ! i)) (AlignOf (Elements L ! Suc i)))"
  using assms by simp

lemma Offset_agree:
  assumes "Elements L1 = Elements L2"
    and "\<forall>j<i. size_mem L1 ! j = size_mem L2 ! j"
    and "i < NumOffsets L1" and "i < NumOffsets L2"
  shows "Offset L1 i = Offset L2 i"
  using assms
proof (induction i)
  case 0
  show ?case by simp
next
  case (Suc i)
  have "Offset L1 i = Offset L2 i" using Suc by simp
  moreover have "size_mem L1 ! i = size_mem L2 ! i" using Suc.prems(2) by simp
  ultimately show ?case using Suc.prems(1,3,4) by (simp split: sum.splits)
qed

lemma call_keeps: "snd (call tn asan op L) = L"
  by (cases op) simp_all

lemma run_keeps: "snd (run tn asan ops L) = L"
proof (induction ops arbitrary: L)
  case Nil
  show ?case by simp
next
  case (Cons op ops)
  obtain r L' where c: "call tn asan op L = (r, L')" by (cases "call tn asan op L")
  obtain rs L'' where r: "run tn asan ops L' = (rs, L'')" by (cases "run tn asan ops L'")
  have "L' = L" using call_keeps [of tn asan op L] c by simp
  moreover have "L'' = L'" using Cons.IH [of L'] r by simp
  ultimately show ?case using c r by simp
qed

lemma collect_map_Inr: "collect (map Inr xs) = Inr xs"
  by (induction xs) simp_all

lemma Sizes_eq: "Sizes L = Inr (size_mem L)"
proof -
  have "map (Size L) [0 ..< NumSizes L] = map Inr (map (nth (size_mem L)) [0 ..< length (size_mem L)])"
    by (simp add: Size_def NumSizes_def)
  also have "\<dots> = map Inr (size_mem L)" by (simp only: map_nth)
  finally show ?thesis by (simp add: Sizes_def collect_map_Inr)
qed

section \<open>Rounding up to a power of two\<close>

lemma unat_Align_pow2:
  assumes "IsPow2 m" and "m \<noteq> 0" and "unat n + unat m - 1 < 2 ^ 64"
  shows "unat (Align n m) = (unat n + unat m - 1) div unat m * unat m"
proof -
  obtain k where k: "k < 64" "m = 2 ^ k" using IsPow2_nonzero_exp [OF assms(1,2)] by blast
  have "unat m = 2 ^ k" using k by (simp add: unat_exp)
  then show ?thesis using unat_Align_exact [of k n] k assms(3) by simp
qed

lemma Align_dvd:
  assumes "IsPow2 m" and "m \<noteq> 0"
  shows "unat m dvd unat (Align n m)"
proof -
  obtain k where k: "k < 64" "m = 2 ^ k" using IsPow2_nonzero_exp [OF assms] by blast
  have "unat m = 2 ^ k" using k by (simp add: unat_exp)
  then show ?thesis using unat_Align_exp [OF k(1), of n] k(2) by simp
qed

lemma Align_ge:
  assumes "IsPow2 m" and "m \<noteq> 0" and "unat n + unat m - 1 < 2 ^ 64"
  shows "unat n \<le> unat (Align n m)"
proof -
  have "0 < unat m" using assms(2) by (simp add: unat_gt_0)
  then show ?thesis
    unfolding unat_Align_pow2 [OF assms] by (rule round_up_least(2))
qed

lemma Align_ceiling:
  assumes "IsPow2 m" and "m \<noteq> 0" and "unat n + unat m - 1 < 2 ^ 64"
  shows "int (unat (Align n m)) = \<lceil>real (unat n) / real (unat m)\<rceil> * int (unat m)"
proof -
  have "0 < unat m" using assms(2) by (simp add: unat_gt_0)
  then have c: "\<lceil>real (unat n) / real (unat m)\<rceil> = int ((unat n + unat m - 1) div unat m)"
    by (rule ceiling_nat_div)
  show ?thesis
    by (simp only: unat_Align_pow2 [OF assms] c of_nat_mult)
qed

lemma div_mult_mod_pow2:
  fixes y :: nat
  assumes "k \<le> w"
  shows "(y mod 2 ^ w) div 2 ^ k * 2 ^ k = (y div 2 ^ k * 2 ^ k) mod 2 ^ w"
proof -
  define M :: nat where "M = 2 ^ k"
  define Q :: nat where "Q = 2 ^ (w - k)"
  have Mpos: "0 < M" by (simp add: M_def)
  have W: "(2::nat) ^ w = M * Q" using assms by (simp add: M_def Q_def flip: power_add)
  have "y mod (M * Q) = M * (y div M mod Q) + y mod M"
    by (rule mod_mult2_eq)
  then have "(y mod (M * Q)) div M = (M * (y div M mod Q) + y mod M) div M"
    by (rule arg_cong)
  also have "\<dots> = y div M mod Q" using Mpos by simp
  finally have l: "(y mod (M * Q)) div M * M = M * (y div M mod Q)"
    by (simp only: mult.commute)
  have "(M * (y div M)) mod (M * Q) = M * (y div M mod Q)"
    by (rule mult_mod_right [symmetric])
  then have r: "(y div M * M) mod (M * Q) = M * (y div M mod Q)"
    by (simp only: mult.commute [of "y div M" M])
  show ?thesis unfolding W M_def [symmetric] using l r by (simp only:)
qed

lemma Align_ceiling_mod:
  assumes "IsPow2 m" and "m \<noteq> 0"
  shows "int (unat (Align n m)) = (\<lceil>real (unat n) / real (unat m)\<rceil> * int (unat m)) mod 2 ^ 64"
proof -
  obtain k where k: "k < 64" "m = 2 ^ k" using IsPow2_nonzero_exp [OF assms] by blast
  have um: "unat m = 2 ^ k" using k by (simp add: unat_exp)
  have pos: "0 < unat m" using um by simp
  have c: "\<lceil>real (unat n) / real (unat m)\<rceil> = int ((unat n + unat m - 1) div unat m)"
    using pos by (rule ceiling_nat_div)
  have "unat (Align n m) = ((unat n + (2 ^ k - 1)) mod 2 ^ 64) div 2 ^ k * 2 ^ k"
    using unat_Align_exp [OF k(1), of n] k(2) by simp
  also have "\<dots> = ((unat n + (2 ^ k - 1)) div 2 ^ k * 2 ^ k) mod 2 ^ 64"
    using k(1) by (intro div_mult_mod_pow2) simp
  also have "unat n + (2 ^ k - 1) = unat n + unat m - 1" using um by simp
  finally have "unat (Align n m) = ((unat n + unat m - 1) div unat m * unat m) mod 2 ^ 64"
    using um by simp
  then have "int (unat (Align n m)) = int (((unat n + unat m - 1) div unat m * unat m) mod 2 ^ 64)"
    by (rule arg_cong)
  also have "\<dots> = (int ((unat n + unat m - 1) div unat m) * int (unat m)) mod int (2 ^ 64)"
    by (simp only: zmod_int of_nat_mult)
  also have "int (2 ^ 64) = 2 ^ 64" by simp
  finally show ?thesis unfolding c .
qed

lemma unat_sum_fits:
  fixes a b c :: size_t
  assumes "unat a + unat b * unat c < 2 ^ 64"
  shows "unat (a + b * c) = unat a + unat b * unat c"
proof -
  have "unat b * unat c < 2 ^ LENGTH(64)" using assms by simp
  then have m: "unat (b * c) = unat b * unat c" by (rule iffD1 [OF unat_mult_lem])
  have "unat a + unat (b * c) < 2 ^ LENGTH(64)" using assms m by simp
  then have "unat (a + b * c) = unat a + unat (b * c)" by (rule iffD1 [OF unat_add_lem])
  then show ?thesis using m by simp
qed

lemma unat_sum_mod:
  fixes a b c :: size_t
  shows "unat (a + b * c) = (unat a + unat b * unat c) mod 2 ^ 64"
proof -
  have "unat (a + b * c) = (unat a + unat (b * c)) mod 2 ^ 64"
    by (simp add: unat_word_ariths)
  also have "unat (b * c) = (unat b * unat c) mod 2 ^ 64"
    by (simp add: unat_word_ariths)
  also have "(unat a + (unat b * unat c) mod 2 ^ 64) mod 2 ^ 64 =
      (unat a + unat b * unat c) mod 2 ^ 64"
    by (rule mod_add_right_eq)
  finally show ?thesis .
qed

lemma exp_mod_exp:
  assumes "j \<le> k" and "k < 64"
  shows "(2 :: size_t) ^ k mod 2 ^ j = 0"
proof -
  have "j < 64" using assms by simp
  have "unat ((2 :: size_t) ^ k mod 2 ^ j) = 2 ^ k mod 2 ^ j"
    using assms(2) \<open>j < 64\<close> by (simp add: unat_mod unat_exp)
  also have "\<dots> = 0" using assms(1) by (simp add: le_imp_power_dvd)
  finally show ?thesis by (simp add: unat_0_iff)
qed

lemma pow2_mod_trans:
  fixes a b p :: size_t
  assumes "IsPow2 a" and "a \<noteq> 0" and "IsPow2 b" and "a \<le> b" and "p mod b = 0"
  shows "p mod a = 0"
proof -
  have bnz: "b \<noteq> 0" using assms(2,4) by auto
  obtain j where j: "j < 64" "a = 2 ^ j" using IsPow2_nonzero_exp [OF assms(1,2)] by blast
  obtain k where k: "k < 64" "b = 2 ^ k" using IsPow2_nonzero_exp [OF assms(3) bnz] by blast
  have ua: "unat a = 2 ^ j" and ub: "unat b = 2 ^ k" using j k by (simp_all add: unat_exp)
  have "unat a \<le> unat b" using assms(4) by (simp add: word_le_nat_alt)
  then have "j \<le> k" unfolding ua ub by simp
  then have d: "unat a dvd unat b" unfolding ua ub by (rule le_imp_power_dvd)
  have "unat (p mod b) = 0" using assms(5) by simp
  then have "unat b dvd unat p" by (simp add: unat_mod dvd_eq_mod_eq_0)
  with d have "unat a dvd unat p" by (rule dvd_trans)
  then have "unat (p mod a) = 0" by (simp add: unat_mod)
  then show ?thesis by (simp add: unat_0_iff)
qed

lemma Max_sz_eq: "Max_sz a bs = Max (set (a # bs))"
proof (induction bs arbitrary: a)
  case Nil
  show ?case by simp
next
  case (Cons b bs)
  have "(if b < a then a else b) = max a b" by (auto simp add: max_def)
  then have "Max_sz a (b # bs) = Max (set (max a b # bs))" using Cons.IH by simp
  also have "\<dots> = Max (set (a # b # bs))"
    by (cases "bs = []") (simp_all add: max.assoc)
  finally show ?case .
qed

lemma Alignment_of_Max: "Ts \<noteq> [] \<Longrightarrow> Alignment_of Ts = Max (AlignOf ` set Ts)"
  by (cases Ts) (simp_all add: Max_sz_eq)

section \<open>Offsets in the absence of wrap-around\<close>

lemma Offset_aligned:
  assumes "Partial Ts cs = Inr L" and "i < NumOffsets L"
    and "AlignOf (Ts ! i) \<noteq> 0" and "Offset L i = Inr off"
  shows "unat (AlignOf (Ts ! i)) dvd unat off"
proof (cases i)
  case 0
  then show ?thesis using assms(4) by simp
next
  case (Suc n)
  note P = Partial_Inr [OF assms(1)]
  have lt: "Suc n < NumOffsets L" using assms(2) Suc by simp
  then have "n < NumOffsets L" by simp
  then obtain o' where o': "Offset L n = Inr o'" using Offset_defined by blast
  have "Ts ! i \<in> set Ts" using assms(2) P(3) by simp
  then have pow: "IsPow2 (AlignOf (Ts ! i))" using P(6) legal_IsPow2 by blast
  have "off = Align (o' + SizeOf (Ts ! n) * (cs ! n)) (AlignOf (Ts ! i))"
    using Offset_Suc [OF lt o'] assms(4) P(1,2) Suc by simp
  then show ?thesis using Align_dvd [OF pow assms(3)] by simp
qed

lemma Offset_step_ge:
  assumes "Partial Ts cs = Inr L" and "Suc i < NumOffsets L"
    and "AlignOf (Ts ! Suc i) \<noteq> 0"
    and "Offset L i = Inr off" and "Offset L (Suc i) = Inr off'"
    and "unat off + unat (SizeOf (Ts ! i)) * unat (cs ! i) + unat (AlignOf (Ts ! Suc i)) - 1 < 2 ^ 64"
  shows "unat off + unat (SizeOf (Ts ! i)) * unat (cs ! i) \<le> unat off'"
proof -
  note P = Partial_Inr [OF assms(1)]
  have "Ts ! Suc i \<in> set Ts" using assms(2) P(3) by simp
  then have pow: "IsPow2 (AlignOf (Ts ! Suc i))" using P(6) legal_IsPow2 by blast
  have pos: "0 < unat (AlignOf (Ts ! Suc i))" using assms(3) by (simp add: unat_gt_0)
  have "unat off + unat (SizeOf (Ts ! i)) * unat (cs ! i) < 2 ^ 64" using assms(6) pos by linarith
  then have x: "unat (off + SizeOf (Ts ! i) * (cs ! i)) = unat off + unat (SizeOf (Ts ! i)) * unat (cs ! i)"
    by (rule unat_sum_fits)
  have "off' = Align (off + SizeOf (Ts ! i) * (cs ! i)) (AlignOf (Ts ! Suc i))"
    using Offset_Suc [OF assms(2,4)] assms(5) P(1,2) by simp
  moreover have "unat (off + SizeOf (Ts ! i) * (cs ! i)) + unat (AlignOf (Ts ! Suc i)) - 1 < 2 ^ 64"
    using assms(6) x by simp
  ultimately have "unat (off + SizeOf (Ts ! i) * (cs ! i)) \<le> unat off'"
    using Align_ge [OF pow assms(3)] by simp
  then show ?thesis using x by simp
qed

lemma Offset_mono:
  assumes "Partial Ts cs = Inr L" and "\<forall>e\<in>set Ts. AlignOf e \<noteq> 0"
    and nowrap: "\<forall>n off. Suc n < NumOffsets L \<and> Offset L n = Inr off \<longrightarrow>
      unat off + unat (SizeOf (Ts ! n)) * unat (cs ! n) + unat (AlignOf (Ts ! Suc n)) - 1 < 2 ^ 64"
  shows "i \<le> j \<Longrightarrow> j < NumOffsets L \<Longrightarrow> Offset L i = Inr oi \<Longrightarrow> Offset L j = Inr oj
    \<Longrightarrow> unat oi \<le> unat oj"
proof (induction j arbitrary: oj)
  case 0
  then show ?case by simp
next
  case (Suc j)
  note P = Partial_Inr [OF assms(1)]
  show ?case
  proof (cases "i = Suc j")
    case True
    then show ?thesis using Suc.prems by simp
  next
    case False
    then have le: "i \<le> j" using Suc.prems(1) by simp
    have "j < NumOffsets L" using Suc.prems(2) by simp
    then obtain o' where o': "Offset L j = Inr o'" using Offset_defined by blast
    have "Ts ! Suc j \<in> set Ts" using Suc.prems(2) P(3) by simp
    then have nz: "AlignOf (Ts ! Suc j) \<noteq> 0" using assms(2) by blast
    have fit: "unat o' + unat (SizeOf (Ts ! j)) * unat (cs ! j) + unat (AlignOf (Ts ! Suc j)) - 1 < 2 ^ 64"
      using nowrap Suc.prems(2) o' by blast
    have "unat o' + unat (SizeOf (Ts ! j)) * unat (cs ! j) \<le> unat oj"
      using Offset_step_ge [OF assms(1) Suc.prems(2) nz o' Suc.prems(4) fit] .
    moreover have "unat oi \<le> unat o'"
      using Suc.IH [OF le \<open>j < NumOffsets L\<close> Suc.prems(3) o'] .
    ultimately show ?thesis by linarith
  qed
qed

lemma end_before_later_start:
  assumes "Partial Ts cs = Inr L" and "\<forall>e\<in>set Ts. AlignOf e \<noteq> 0"
    and nowrap: "\<forall>n off. Suc n < NumOffsets L \<and> Offset L n = Inr off \<longrightarrow>
      unat off + unat (SizeOf (Ts ! n)) * unat (cs ! n) + unat (AlignOf (Ts ! Suc n)) - 1 < 2 ^ 64"
    and "i < j" and "j < NumOffsets L" and "Offset L i = Inr oi" and "Offset L j = Inr oj"
  shows "unat oi + unat (SizeOf (Ts ! i)) * unat (cs ! i) \<le> unat oj"
proof -
  note P = Partial_Inr [OF assms(1)]
  have lt: "Suc i < NumOffsets L" using assms(4,5) by simp
  then obtain o' where o': "Offset L (Suc i) = Inr o'" using Offset_defined by blast
  have "Ts ! Suc i \<in> set Ts" using lt P(3) by simp
  then have nz: "AlignOf (Ts ! Suc i) \<noteq> 0" using assms(2) by blast
  have fit: "unat oi + unat (SizeOf (Ts ! i)) * unat (cs ! i) + unat (AlignOf (Ts ! Suc i)) - 1 < 2 ^ 64"
    using nowrap lt assms(6) by blast
  have "unat oi + unat (SizeOf (Ts ! i)) * unat (cs ! i) \<le> unat o'"
    using Offset_step_ge [OF assms(1) lt nz assms(6) o' fit] .
  moreover have "unat o' \<le> unat oj"
    using Offset_mono [OF assms(1,2) nowrap _ assms(5) o' assms(7)] assms(4) by simp
  ultimately show ?thesis by linarith
qed

section \<open>The alignment override\<close>

text \<open>
  For a non-zero override \<open>N\<close> on a type with a proper natural alignment, the two
  compile-time checks accept \<open>Aligned<T, N>\<close> exactly when \<open>N\<close> is a power of two
  and at least \<open>alignof(T)\<close>.
\<close>

lemma Aligned_check_nonzero:
  assumes "IsPow2 (alignof T)" and "alignof T \<noteq> 0"
    and "\<not> is_reference T" and "\<not> is_volatile T" and "N \<noteq> 0"
  shows "check_element (Aligned T N) = None \<longleftrightarrow> (\<exists>k<64. N = 2 ^ k) \<and> alignof T \<le> N"
proof
  assume "check_element (Aligned T N) = None"
  then have pow: "IsPow2 N" and md: "N mod alignof T = 0"
    by (auto simp add: check_element_def split: if_splits)
  have "\<exists>k<64. N = 2 ^ k" using pow assms(5) by (rule IsPow2_nonzero_exp)
  moreover have "alignof T \<le> N"
  proof (rule ccontr)
    assume "\<not> alignof T \<le> N"
    then have "N < alignof T" by simp
    then have "N mod alignof T = N" by (simp add: word_mod_less_divisor mod_word_less)
    then show False using md assms(5) by simp
  qed
  ultimately show "(\<exists>k<64. N = 2 ^ k) \<and> alignof T \<le> N" ..
next
  assume r: "(\<exists>k<64. N = 2 ^ k) \<and> alignof T \<le> N"
  then obtain k where k: "k < 64" "N = 2 ^ k" by blast
  obtain j where j: "j < 64" "alignof T = 2 ^ j"
    using IsPow2_nonzero_exp [OF assms(1,2)] by blast
  have "unat (alignof T) \<le> unat N" using r by (simp add: word_le_nat_alt)
  then have "(2 :: nat) ^ j \<le> 2 ^ k" using j k by (simp add: unat_exp)
  then have "j \<le> k" by simp
  then have "N mod alignof T = 0" unfolding j k using k(1) by (rule exp_mod_exp)
  moreover have "IsPow2 N" unfolding k using k(1) by (rule exp_IsPow2)
  ultimately show "check_element (Aligned T N) = None"
    using assms(3,4) by (simp add: check_element_def)
qed

section \<open>Properties of the layout\<close>

text \<open>
  Claim C1, as amended. For a descriptor built from an element-type list and a prefix of
  counts, \<open>Offset<0>()\<close> is 0, and for every index \<open>i\<close> with \<open>0 < i < min(N, K + 1)\<close>
  \<open>Offset<i>()\<close> is \<open>Align(x, alignment(i))\<close> for
  \<open>x = Offset<i - 1>() + size(i - 1) * count(i - 1)\<close> computed in \<open>size_t\<close>. For a non-zero
  alignment that value is \<open>ceil(x / alignment(i)) * alignment(i)\<close> reduced modulo \<open>2^64\<close>,
  hence \<open>ceil(x / alignment(i)) * alignment(i)\<close> itself whenever \<open>x + alignment(i) - 1\<close>
  does not overflow \<open>size_t\<close>. Without that proviso the rounding wraps around, as the
  counterexample after the theorem shows.
\<close>

theorem offset_recurrence:
  assumes "Partial Ts cs = Inr L"
  shows "Offset L 0 = Inr 0
       \<and> (\<forall>i. 0 < i \<and> i < min (length Ts) (length cs + 1) \<longrightarrow>
            (\<exists>off. Offset L (i - 1) = Inr off
               \<and> Offset L i =
                   Inr (Align (off + SizeOf (Ts ! (i - 1)) * (cs ! (i - 1))) (AlignOf (Ts ! i)))
               \<and> (AlignOf (Ts ! i) \<noteq> 0 \<longrightarrow>
                   int (unat (Align (off + SizeOf (Ts ! (i - 1)) * (cs ! (i - 1)))
                                    (AlignOf (Ts ! i)))) =
                     (\<lceil>real (unat (off + SizeOf (Ts ! (i - 1)) * (cs ! (i - 1))))
                         / real (unat (AlignOf (Ts ! i)))\<rceil>
                      * int (unat (AlignOf (Ts ! i)))) mod 2 ^ 64)
               \<and> (AlignOf (Ts ! i) \<noteq> 0
                    \<and> unat (off + SizeOf (Ts ! (i - 1)) * (cs ! (i - 1)))
                        + unat (AlignOf (Ts ! i)) - 1 < 2 ^ 64 \<longrightarrow>
                   int (unat (Align (off + SizeOf (Ts ! (i - 1)) * (cs ! (i - 1)))
                                    (AlignOf (Ts ! i)))) =
                     \<lceil>real (unat (off + SizeOf (Ts ! (i - 1)) * (cs ! (i - 1))))
                        / real (unat (AlignOf (Ts ! i)))\<rceil>
                     * int (unat (AlignOf (Ts ! i))))))"
proof -
  note P = Partial_Inr [OF assms]
  have step: "\<exists>off. Offset L (i - 1) = Inr off
               \<and> Offset L i =
                   Inr (Align (off + SizeOf (Ts ! (i - 1)) * (cs ! (i - 1))) (AlignOf (Ts ! i)))
               \<and> (AlignOf (Ts ! i) \<noteq> 0 \<longrightarrow>
                   int (unat (Align (off + SizeOf (Ts ! (i - 1)) * (cs ! (i - 1)))
                                    (AlignOf (Ts ! i)))) =
                     (\<lceil>real (unat (off + SizeOf (Ts ! (i - 1)) * (cs ! (i - 1))))
                         / real (unat (AlignOf (Ts ! i)))\<rceil>
                      * int (unat (AlignOf (Ts ! i)))) mod 2 ^ 64)
               \<and> (AlignOf (Ts ! i) \<noteq> 0
                    \<and> unat (off + SizeOf (Ts ! (i - 1)) * (cs ! (i - 1)))
                        + unat (AlignOf (Ts ! i)) - 1 < 2 ^ 64 \<longrightarrow>
                   int (unat (Align (off + SizeOf (Ts ! (i - 1)) * (cs ! (i - 1)))
                                    (AlignOf (Ts ! i)))) =
                     \<lceil>real (unat (off + SizeOf (Ts ! (i - 1)) * (cs ! (i - 1))))
                        / real (unat (AlignOf (Ts ! i)))\<rceil>
                     * int (unat (AlignOf (Ts ! i))))"
    if i: "0 < i" "i < min (length Ts) (length cs + 1)" for i
  proof -
    obtain n where n: "i = Suc n" using i(1) by (cases i) simp_all
    have lt: "Suc n < NumOffsets L" using i(2) n P(3) by simp
    then have "n < NumOffsets L" by simp
    then obtain off where off: "Offset L n = Inr off" using Offset_defined by blast
    have nxt: "Offset L (Suc n) =
        Inr (Align (off + SizeOf (Ts ! n) * (cs ! n)) (AlignOf (Ts ! Suc n)))"
      using Offset_Suc [OF lt off] P(1,2) by simp
    have "Ts ! Suc n \<in> set Ts" using i(2) n by simp
    then have pow: "IsPow2 (AlignOf (Ts ! Suc n))" using P(6) legal_IsPow2 by blast
    show ?thesis
      unfolding n using off nxt Align_ceiling [OF pow] Align_ceiling_mod [OF pow] by simp
  qed
  show ?thesis using step by simp
qed

theorem offset_recurrence_witness:
  "Partial custom_types [3] = Inr \<lparr>Elements = custom_types, NumOffsets = 2, size_mem = [3]\<rparr>
   \<and> (0 :: nat) < 1 \<and> (1 :: nat) < min (length custom_types) (length [3 :: size_t] + 1)
   \<and> Offset \<lparr>Elements = custom_types, NumOffsets = 2, size_mem = [3]\<rparr> 0 = Inr 0
   \<and> Offset \<lparr>Elements = custom_types, NumOffsets = 2, size_mem = [3]\<rparr> 1 = Inr (Align (0 + 1 * 3) 32)
   \<and> AlignOf (custom_types ! 1) \<noteq> 0
   \<and> unat (0 + 1 * 3 :: size_t) + unat (32 :: size_t) - 1 < 2 ^ 64
   \<and> int (unat (Align (0 + 1 * 3) 32)) = \<lceil>real (unat (0 + 1 * 3 :: size_t)) / real (unat (32 :: size_t))\<rceil> * int (unat (32 :: size_t))
   \<and> Align (0 + 1 * 3) 32 = 32"
proof -
  have P: "Partial custom_types [3] = Inr \<lparr>Elements = custom_types, NumOffsets = 2, size_mem = [3]\<rparr>"
    using custom_Partial [of "[3]"] by simp
  show ?thesis
    using offset_recurrence [OF P] P
    by (simp add: char_t_def int_t_def double_t_def Align_def)
qed

text \<open>
  One \<open>char\<close> array of \<open>2^64 - 7\<close> elements followed by a \<open>double\<close> array: rounding
  \<open>2^64 - 7\<close> up to a multiple of 8 gives \<open>2^64\<close>, and \<open>Offset<1>()\<close> is 0.
\<close>

theorem offset_recurrence_counterexample:
  "Partial [Plain char_t, Plain double_t] [18446744073709551609] =
     Inr \<lparr>Elements = [Plain char_t, Plain double_t], NumOffsets = 2, size_mem = [18446744073709551609]\<rparr>
   \<and> Offset \<lparr>Elements = [Plain char_t, Plain double_t], NumOffsets = 2, size_mem = [18446744073709551609]\<rparr> 0 = Inr 0
   \<and> Offset \<lparr>Elements = [Plain char_t, Plain double_t], NumOffsets = 2, size_mem = [18446744073709551609]\<rparr> 1 = Inr 0
   \<and> \<lceil>real (unat (0 + SizeOf (Plain char_t) * 18446744073709551609 :: size_t))
        / real (unat (AlignOf (Plain double_t)))\<rceil> * int (unat (AlignOf (Plain double_t)))
       = 18446744073709551616
   \<and> int (unat (0 :: size_t)) \<noteq> 18446744073709551616"
proof -
  have "Partial [Plain char_t, Plain double_t] [18446744073709551609] =
     Inr \<lparr>Elements = [Plain char_t, Plain double_t], NumOffsets = 2, size_mem = [18446744073709551609]\<rparr>"
    by (rule Partial_succeeds [THEN trans])
       (simp_all add: char_t_def double_t_def IsPow2_def)
  moreover have "Offset \<lparr>Elements = [Plain char_t, Plain double_t], NumOffsets = 2, size_mem = [18446744073709551609]\<rparr> 1 = Inr 0"
    by (simp add: char_t_def double_t_def Align_def)
  moreover have "\<lceil>real (unat (0 + SizeOf (Plain char_t) * 18446744073709551609 :: size_t))
        / real (unat (AlignOf (Plain double_t)))\<rceil> * int (unat (AlignOf (Plain double_t)))
       = 18446744073709551616"
    by (simp add: char_t_def double_t_def)
  ultimately show ?thesis by simp
qed

text \<open>
  Claim C2. A descriptor over \<open>N\<close> element types built from \<open>K\<close> counts has
  \<open>NumOffsets = min(N, K + 1)\<close>; \<open>Offset<i>()\<close> returns a value for every \<open>i\<close> below that
  number and is rejected (\<open>Index out of bounds\<close>) for every other \<open>i\<close>.
\<close>

theorem offsets_computable:
  assumes "Partial Ts cs = Inr L"
  shows "NumOffsets L = min (length Ts) (length cs + 1)
       \<and> (\<forall>i. (i < min (length Ts) (length cs + 1) \<longrightarrow> (\<exists>v. Offset L i = Inr v))
              \<and> (min (length Ts) (length cs + 1) \<le> i \<longrightarrow> Offset L i = Inl IndexOutOfBounds))"
proof -
  note P = Partial_Inr [OF assms]
  have len: "0 < length Ts" using P(5) by simp
  have "\<exists>v. Offset L i = Inr v" if "i < min (length Ts) (length cs + 1)" for i
    using that P(3) by (intro Offset_defined) simp
  moreover have "Offset L i = Inl IndexOutOfBounds" if "min (length Ts) (length cs + 1) \<le> i" for i
  proof (rule Offset_rejected)
    show "0 < i" using that len by arith
    show "NumOffsets L \<le> i" using that P(3) by simp
  qed
  ultimately show ?thesis using P(3) by blast
qed

theorem offsets_computable_witness:
  "Partial custom_types [3] =
     Inr \<lparr>Elements = custom_types, NumOffsets = 2, size_mem = [3]\<rparr>
   \<and> Offset \<lparr>Elements = custom_types, NumOffsets = 2, size_mem = [3]\<rparr> 1 = Inr 32
   \<and> Offset \<lparr>Elements = custom_types, NumOffsets = 2, size_mem = [3]\<rparr> 2 = Inl IndexOutOfBounds"
proof -
  have P: "Partial custom_types [3] =
     Inr \<lparr>Elements = custom_types, NumOffsets = 2, size_mem = [3]\<rparr>"
    by (rule Partial_succeeds [THEN trans])
       (simp_all add: char_t_def int_t_def double_t_def IsPow2_def)
  show ?thesis
    using offsets_computable [OF P] P
    by (simp add: eval_nat_numeral char_t_def int_t_def double_t_def Align_def)
qed

text \<open>
  Claim C3, as amended. \<open>AllocSize()\<close> returns a value exactly when all \<open>N\<close> counts are
  given, and is rejected otherwise; its value is
  \<open>Offset<N - 1>() + size(N - 1) * count(N - 1)\<close> computed in \<open>size_t\<close>, that is, reduced
  modulo \<open>2^64\<close>, with nothing added for alignment. It is the byte position where the last
  array ends provided that sum does not overflow \<open>size_t\<close>. Without the proviso the sum
  wraps around, as the counterexample after the theorem shows.
\<close>

theorem AllocSize_end_of_last:
  assumes "Partial Ts cs = Inr L"
  shows "((\<exists>v. AllocSize L = Inr v) \<longleftrightarrow> length cs = length Ts)
       \<and> (length cs \<noteq> length Ts \<longrightarrow> AllocSize L = Inl SizesNotAllSpecified)
       \<and> (length cs = length Ts \<longrightarrow>
            (\<exists>off. Offset L (length Ts - 1) = Inr off
               \<and> AllocSize L =
                   Inr (off + SizeOf (Ts ! (length Ts - 1)) * (cs ! (length Ts - 1)))
               \<and> unat (off + SizeOf (Ts ! (length Ts - 1)) * (cs ! (length Ts - 1))) =
                     (unat off + unat (SizeOf (Ts ! (length Ts - 1))) * unat (cs ! (length Ts - 1)))
                       mod 2 ^ 64
               \<and> (unat off + unat (SizeOf (Ts ! (length Ts - 1))) * unat (cs ! (length Ts - 1))
                      < 2 ^ 64 \<longrightarrow>
                   unat (off + SizeOf (Ts ! (length Ts - 1)) * (cs ! (length Ts - 1))) =
                     unat off + unat (SizeOf (Ts ! (length Ts - 1))) * unat (cs ! (length Ts - 1)))))"
proof -
  note P = Partial_Inr [OF assms]
  have neq: "AllocSize L = Inl SizesNotAllSpecified" if "length cs \<noteq> length Ts"
    using that P(1,2) by (simp add: AllocSize_def NumTypes_def NumSizes_def)
  have eq: "\<exists>off. Offset L (length Ts - 1) = Inr off
               \<and> AllocSize L = Inr (off + SizeOf (Ts ! (length Ts - 1)) * (cs ! (length Ts - 1)))
               \<and> unat (off + SizeOf (Ts ! (length Ts - 1)) * (cs ! (length Ts - 1))) =
                     (unat off + unat (SizeOf (Ts ! (length Ts - 1))) * unat (cs ! (length Ts - 1)))
                       mod 2 ^ 64
               \<and> (unat off + unat (SizeOf (Ts ! (length Ts - 1))) * unat (cs ! (length Ts - 1))
                      < 2 ^ 64 \<longrightarrow>
                   unat (off + SizeOf (Ts ! (length Ts - 1)) * (cs ! (length Ts - 1))) =
                     unat off + unat (SizeOf (Ts ! (length Ts - 1))) * unat (cs ! (length Ts - 1)))"
    if full: "length cs = length Ts"
  proof -
    have "length Ts - 1 < NumOffsets L" using full P(3,5) by simp
    then obtain off where off: "Offset L (length Ts - 1) = Inr off"
      using Offset_defined by blast
    have "AllocSize L = Inr (off + SizeOf (Ts ! (length Ts - 1)) * (cs ! (length Ts - 1)))"
      using off full P(1,2) by (simp add: AllocSize_def NumTypes_def NumSizes_def)
    then show ?thesis using off unat_sum_fits unat_sum_mod by blast
  qed
  show ?thesis
  proof (cases "length cs = length Ts")
    case True
    then show ?thesis using eq by auto
  next
    case False
    then show ?thesis using neq by auto
  qed
qed

theorem AllocSize_end_of_last_witness:
  "Partial custom_types [3, 2, 4] =
     Inr \<lparr>Elements = custom_types, NumOffsets = 3, size_mem = [3, 2, 4]\<rparr>
   \<and> length [3, 2, 4 :: size_t] = length custom_types
   \<and> Offset \<lparr>Elements = custom_types, NumOffsets = 3, size_mem = [3, 2, 4]\<rparr> 2 = Inr 40
   \<and> AllocSize \<lparr>Elements = custom_types, NumOffsets = 3, size_mem = [3, 2, 4]\<rparr> = Inr 72
   \<and> Partial custom_types [3, 2] =
     Inr \<lparr>Elements = custom_types, NumOffsets = 3, size_mem = [3, 2]\<rparr>
   \<and> length [3, 2 :: size_t] \<noteq> length custom_types
   \<and> AllocSize \<lparr>Elements = custom_types, NumOffsets = 3, size_mem = [3, 2]\<rparr> = Inl SizesNotAllSpecified"
proof -
  have P: "Partial custom_types [3, 2, 4] =
     Inr \<lparr>Elements = custom_types, NumOffsets = 3, size_mem = [3, 2, 4]\<rparr>"
    using custom_Partial [of "[3, 2, 4]"] by simp
  have Q: "Partial custom_types [3, 2] =
     Inr \<lparr>Elements = custom_types, NumOffsets = 3, size_mem = [3, 2]\<rparr>"
    using custom_Partial [of "[3, 2]"] by simp
  have off: "Offset \<lparr>Elements = custom_types, NumOffsets = 3, size_mem = [3, 2, 4]\<rparr> 2 = Inr 40"
    by (simp add: eval_nat_numeral char_t_def int_t_def double_t_def Align_def)
  show ?thesis
    using AllocSize_end_of_last [OF P] AllocSize_end_of_last [OF Q] P Q off
    by (simp add: char_t_def int_t_def double_t_def Align_def)
qed

text \<open>
  Three \<open>char\<close>s followed by \<open>2^62 - 1\<close> \<open>int\<close>s: the \<open>int\<close> array starts at byte 4 and
  ends at byte \<open>2^64\<close>, and \<open>AllocSize()\<close> is 0.
\<close>

theorem AllocSize_end_of_last_counterexample:
  "Layout [Plain char_t, Plain int_t] [3, 4611686018427387903] =
     Inr \<lparr>Elements = [Plain char_t, Plain int_t], NumOffsets = 2, size_mem = [3, 4611686018427387903]\<rparr>
   \<and> Offset \<lparr>Elements = [Plain char_t, Plain int_t], NumOffsets = 2, size_mem = [3, 4611686018427387903]\<rparr> 1 = Inr 4
   \<and> AllocSize \<lparr>Elements = [Plain char_t, Plain int_t], NumOffsets = 2, size_mem = [3, 4611686018427387903]\<rparr> = Inr 0
   \<and> unat (4 :: size_t) + unat (SizeOf (Plain int_t)) * unat (4611686018427387903 :: size_t)
       = 18446744073709551616
   \<and> unat (0 :: size_t) \<noteq> 18446744073709551616"
proof -
  have "Layout [Plain char_t, Plain int_t] [3, 4611686018427387903] =
     Inr \<lparr>Elements = [Plain char_t, Plain int_t], NumOffsets = 2, size_mem = [3, 4611686018427387903]\<rparr>"
    by (simp add: Layout_def LayoutType_def LayoutImpl_def Min_sz_def check_elements_def
        char_t_def int_t_def IsPow2_def)
  moreover have "Offset \<lparr>Elements = [Plain char_t, Plain int_t], NumOffsets = 2, size_mem = [3, 4611686018427387903]\<rparr> 1 = Inr 4"
    by (simp add: char_t_def int_t_def Align_def)
  moreover have "AllocSize \<lparr>Elements = [Plain char_t, Plain int_t], NumOffsets = 2, size_mem = [3, 4611686018427387903]\<rparr> = Inr 0"
    by (simp add: AllocSize_def NumTypes_def NumSizes_def char_t_def int_t_def Align_def)
  moreover have "unat (4 :: size_t) + unat (SizeOf (Plain int_t)) * unat (4611686018427387903 :: size_t)
       = 18446744073709551616"
    by (simp add: int_t_def)
  ultimately show ?thesis by simp
qed

text \<open>
  Claim C4, as amended. For a descriptor whose alignments are all non-zero (powers of two
  then, by the element check), every computable offset is a multiple of its array's
  alignment. If moreover no step \<open>Offset<n>() + size(n) * count(n) + alignment(n + 1) - 1\<close>
  exceeds \<open>size_t\<close>, then for \<open>i < j\<close> array \<open>i\<close> ends at or before the start of array
  \<open>j\<close> (for \<open>j = i + 1\<close> this is \<open>Offset(j) >= Offset(i) + size(i) * count(i)\<close>), and the
  byte ranges of the two arrays are disjoint. Without the proviso the offsets wrap
  around, as the counterexample after the theorem shows.
\<close>

theorem offsets_aligned_and_disjoint:
  assumes "Partial Ts cs = Inr L"
    and "\<forall>e\<in>set Ts. AlignOf e \<noteq> 0"
  shows "(\<forall>i. i < min (length Ts) (length cs + 1) \<longrightarrow>
            (\<exists>off. Offset L i = Inr off \<and> unat (AlignOf (Ts ! i)) dvd unat off))
       \<and> ((\<forall>n off. Suc n < min (length Ts) (length cs + 1) \<and> Offset L n = Inr off \<longrightarrow>
              unat off + unat (SizeOf (Ts ! n)) * unat (cs ! n)
                + unat (AlignOf (Ts ! Suc n)) - 1 < 2 ^ 64) \<longrightarrow>
           (\<forall>i j oi oj. i < j \<and> j < min (length Ts) (length cs + 1)
                \<and> Offset L i = Inr oi \<and> Offset L j = Inr oj \<longrightarrow>
              unat oi + unat (SizeOf (Ts ! i)) * unat (cs ! i) \<le> unat oj
              \<and> {unat oi ..< unat oi + unat (SizeOf (Ts ! i)) * unat (cs ! i)}
                  \<inter> {unat oj ..< unat oj + unat (SizeOf (Ts ! j)) * unat (cs ! j)} = {}))"
proof -
  note P = Partial_Inr [OF assms(1)]
  have M: "min (length Ts) (length cs + 1) = NumOffsets L" using P(3) by simp
  have al: "\<exists>off. Offset L i = Inr off \<and> unat (AlignOf (Ts ! i)) dvd unat off"
    if lt: "i < NumOffsets L" for i
  proof -
    obtain off where off: "Offset L i = Inr off" using lt Offset_defined by blast
    have "Ts ! i \<in> set Ts" using lt P(3) by simp
    then have "AlignOf (Ts ! i) \<noteq> 0" using assms(2) by blast
    then have "unat (AlignOf (Ts ! i)) dvd unat off"
      using Offset_aligned [OF assms(1) lt _ off] by simp
    then show ?thesis using off by blast
  qed
  have sep: "unat oi + unat (SizeOf (Ts ! i)) * unat (cs ! i) \<le> unat oj
              \<and> {unat oi ..< unat oi + unat (SizeOf (Ts ! i)) * unat (cs ! i)}
                  \<inter> {unat oj ..< unat oj + unat (SizeOf (Ts ! j)) * unat (cs ! j)} = {}"
    if nowrap: "\<forall>n off. Suc n < NumOffsets L \<and> Offset L n = Inr off \<longrightarrow>
              unat off + unat (SizeOf (Ts ! n)) * unat (cs ! n)
                + unat (AlignOf (Ts ! Suc n)) - 1 < 2 ^ 64"
      and ij: "i < j" "j < NumOffsets L" "Offset L i = Inr oi" "Offset L j = Inr oj"
    for i j oi oj
  proof -
    have "unat oi + unat (SizeOf (Ts ! i)) * unat (cs ! i) \<le> unat oj"
      using end_before_later_start [OF assms(1,2) nowrap ij] .
    then show ?thesis by auto
  qed
  show ?thesis unfolding M using al sep by blast
qed

theorem offsets_aligned_and_disjoint_witness:
  "Partial custom_types [3, 2, 4] =
     Inr \<lparr>Elements = custom_types, NumOffsets = 3, size_mem = [3, 2, 4]\<rparr>
   \<and> Offset \<lparr>Elements = custom_types, NumOffsets = 3, size_mem = [3, 2, 4]\<rparr> 1 = Inr 32
   \<and> Offset \<lparr>Elements = custom_types, NumOffsets = 3, size_mem = [3, 2, 4]\<rparr> 2 = Inr 40
   \<and> unat (AlignOf (custom_types ! 1)) dvd unat (32 :: size_t)
   \<and> unat (AlignOf (custom_types ! 2)) dvd unat (40 :: size_t)
   \<and> unat (32 :: size_t) + unat (SizeOf (custom_types ! 1)) * unat ([3, 2, 4 :: size_t] ! 1)
        \<le> unat (40 :: size_t)
   \<and> {unat (32 :: size_t) ..< unat (32 :: size_t) + unat (SizeOf (custom_types ! 1)) * unat ([3, 2, 4 :: size_t] ! 1)}
        \<inter> {unat (40 :: size_t) ..< unat (40 :: size_t) + unat (SizeOf (custom_types ! 2)) * unat ([3, 2, 4 :: size_t] ! 2)} = {}"
proof -
  have P: "Partial custom_types [3, 2, 4] =
     Inr \<lparr>Elements = custom_types, NumOffsets = 3, size_mem = [3, 2, 4]\<rparr>"
    using custom_Partial [of "[3, 2, 4]"] by simp
  have nz: "\<forall>e\<in>set custom_types. AlignOf e \<noteq> 0"
    by (simp add: char_t_def double_t_def)
  have o0: "Offset \<lparr>Elements = custom_types, NumOffsets = 3, size_mem = [3, 2, 4]\<rparr> 0 = Inr 0"
    by simp
  have o1: "Offset \<lparr>Elements = custom_types, NumOffsets = 3, size_mem = [3, 2, 4]\<rparr> 1 = Inr 32"
    by (simp add: char_t_def int_t_def Align_def)
  have o2: "Offset \<lparr>Elements = custom_types, NumOffsets = 3, size_mem = [3, 2, 4]\<rparr> 2 = Inr 40"
    by (simp add: eval_nat_numeral char_t_def int_t_def double_t_def Align_def)
  have nowrap: "\<forall>n off. Suc n < min (length custom_types) (length [3, 2, 4 :: size_t] + 1)
        \<and> Offset \<lparr>Elements = custom_types, NumOffsets = 3, size_mem = [3, 2, 4]\<rparr> n = Inr off \<longrightarrow>
      unat off + unat (SizeOf (custom_types ! n)) * unat ([3, 2, 4 :: size_t] ! n)
        + unat (AlignOf (custom_types ! Suc n)) - 1 < 2 ^ 64"
  proof (intro allI impI)
    fix n off
    assume a: "Suc n < min (length custom_types) (length [3, 2, 4 :: size_t] + 1)
        \<and> Offset \<lparr>Elements = custom_types, NumOffsets = 3, size_mem = [3, 2, 4]\<rparr> n = Inr off"
    then have "n = 0 \<or> n = 1" by auto
    then show "unat off + unat (SizeOf (custom_types ! n)) * unat ([3, 2, 4 :: size_t] ! n)
        + unat (AlignOf (custom_types ! Suc n)) - 1 < 2 ^ 64"
    proof
      assume "n = 0"
      then show ?thesis using a o0 by (simp add: char_t_def)
    next
      assume "n = 1"
      then show ?thesis using a o1 by (simp add: int_t_def double_t_def)
    qed
  qed
  note T = offsets_aligned_and_disjoint [OF P nz]
  have d1: "unat (AlignOf (custom_types ! 1)) dvd unat (32 :: size_t)"
    and d2: "unat (AlignOf (custom_types ! 2)) dvd unat (40 :: size_t)"
    using T [THEN conjunct1, rule_format, of 1] T [THEN conjunct1, rule_format, of 2] o1 o2
    by simp_all
  have sep: "unat (32 :: size_t) + unat (SizeOf (custom_types ! 1)) * unat ([3, 2, 4 :: size_t] ! 1)
        \<le> unat (40 :: size_t)
     \<and> {unat (32 :: size_t) ..< unat (32 :: size_t) + unat (SizeOf (custom_types ! 1)) * unat ([3, 2, 4 :: size_t] ! 1)}
        \<inter> {unat (40 :: size_t) ..< unat (40 :: size_t) + unat (SizeOf (custom_types ! 2)) * unat ([3, 2, 4 :: size_t] ! 2)} = {}"
    using T [THEN conjunct2, THEN mp, OF nowrap, rule_format, of 1 2 32 40] o1 o2 by simp
  show ?thesis using P o1 o2 d1 d2 sep by blast
qed

text \<open>
  A \<open>char\<close> array of \<open>2^64 - 1\<close> elements followed by one \<open>int\<close>: \<open>Offset<1>()\<close> is 0,
  below the end of the first array, and the two byte ranges share byte 0.
\<close>

theorem offsets_aligned_and_disjoint_counterexample:
  "Layout [Plain char_t, Plain int_t] [18446744073709551615, 1] =
     Inr \<lparr>Elements = [Plain char_t, Plain int_t], NumOffsets = 2, size_mem = [18446744073709551615, 1]\<rparr>
   \<and> Offset \<lparr>Elements = [Plain char_t, Plain int_t], NumOffsets = 2, size_mem = [18446744073709551615, 1]\<rparr> 0 = Inr 0
   \<and> Offset \<lparr>Elements = [Plain char_t, Plain int_t], NumOffsets = 2, size_mem = [18446744073709551615, 1]\<rparr> 1 = Inr 0
   \<and> \<not> ((0 :: size_t) + SizeOf (Plain char_t) * 18446744073709551615 \<le> 0)
   \<and> \<not> (unat (0 :: size_t) + unat (SizeOf (Plain char_t)) * unat (18446744073709551615 :: size_t)
          \<le> unat (0 :: size_t))
   \<and> {unat (0 :: size_t) ..< unat (0 :: size_t) + unat (SizeOf (Plain char_t)) * unat (18446744073709551615 :: size_t)}
        \<inter> {unat (0 :: size_t) ..< unat (0 :: size_t) + unat (SizeOf (Plain int_t)) * unat (1 :: size_t)}
       \<noteq> {}"
proof -
  have "Layout [Plain char_t, Plain int_t] [18446744073709551615, 1] =
     Inr \<lparr>Elements = [Plain char_t, Plain int_t], NumOffsets = 2, size_mem = [18446744073709551615, 1]\<rparr>"
    by (simp add: Layout_def LayoutType_def LayoutImpl_def Min_sz_def check_elements_def check_element_def
        char_t_def int_t_def IsPow2_def)
  moreover have "Offset \<lparr>Elements = [Plain char_t, Plain int_t], NumOffsets = 2, size_mem = [18446744073709551615, 1]\<rparr> 1 = Inr 0"
    by (simp add: char_t_def int_t_def Align_def)
  moreover have "\<not> ((0 :: size_t) + SizeOf (Plain char_t) * 18446744073709551615 \<le> 0)"
    by (simp add: char_t_def)
  moreover have "\<not> (unat (0 :: size_t) + unat (SizeOf (Plain char_t)) * unat (18446744073709551615 :: size_t)
          \<le> unat (0 :: size_t))"
    by (simp add: char_t_def)
  moreover have "{unat (0 :: size_t) ..< unat (0 :: size_t) + unat (SizeOf (Plain char_t)) * unat (18446744073709551615 :: size_t)}
        \<inter> {unat (0 :: size_t) ..< unat (0 :: size_t) + unat (SizeOf (Plain int_t)) * unat (1 :: size_t)}
       \<noteq> {}"
  proof -
    have "(0 :: nat) \<in> {unat (0 :: size_t) ..< unat (0 :: size_t) + unat (SizeOf (Plain char_t)) * unat (18446744073709551615 :: size_t)}
        \<inter> {unat (0 :: size_t) ..< unat (0 :: size_t) + unat (SizeOf (Plain int_t)) * unat (1 :: size_t)}"
      by (simp add: char_t_def int_t_def)
    then show ?thesis by blast
  qed
  ultimately show ?thesis by simp
qed

text \<open>
  Claim C5. If a descriptor is built from \<open>K1\<close> counts and another one, partial or
  full, from \<open>K2 > K1\<close> counts over the same element types, and the two agree on the first
  \<open>K1\<close> counts, then every offset the first one can compute (index below
  \<open>min(N, K1 + 1)\<close>) is the same in both.
\<close>

theorem partial_full_consistent:
  assumes "Partial Ts cs1 = Inr L1"
    and "Partial Ts cs2 = Inr L2 \<or> Layout Ts cs2 = Inr L2"
    and "length cs1 < length cs2"
    and "take (length cs1) cs2 = cs1"
    and "i < min (length Ts) (length cs1 + 1)"
  shows "Offset L1 i = Offset L2 i \<and> (\<exists>v. Offset L1 i = Inr v)"
proof -
  have P2: "Partial Ts cs2 = Inr L2"
  proof (cases "length cs2 = length Ts")
    case True
    then show ?thesis using assms(2) by (simp add: Layout_eq_Partial)
  next
    case False
    then show ?thesis using assms(2) by (simp add: Layout_def)
  qed
  note A = Partial_Inr [OF assms(1)]
  note B = Partial_Inr [OF P2]
  have i1: "i < NumOffsets L1" using assms(5) A(3) by simp
  have i2: "i < NumOffsets L2" using assms(3,5) B(3) by simp
  have "size_mem L1 ! j = size_mem L2 ! j" if "j < i" for j
  proof -
    have "j < length cs1" using that assms(5) by simp
    then have "take (length cs1) cs2 ! j = cs2 ! j" by simp
    then show ?thesis using assms(4) A(2) B(2) by simp
  qed
  then have "Offset L1 i = Offset L2 i"
    using A(1) B(1) i1 i2 by (intro Offset_agree) simp_all
  moreover have "\<exists>v. Offset L1 i = Inr v" using i1 by (rule Offset_defined)
  ultimately show ?thesis ..
qed

theorem partial_full_consistent_witness:
  "Partial custom_types [3] =
     Inr \<lparr>Elements = custom_types, NumOffsets = 2, size_mem = [3]\<rparr>
   \<and> Layout custom_types [3, 2, 4] =
     Inr \<lparr>Elements = custom_types, NumOffsets = 3, size_mem = [3, 2, 4]\<rparr>
   \<and> length [3 :: size_t] < length [3, 2, 4 :: size_t]
   \<and> take (length [3 :: size_t]) [3, 2, 4 :: size_t] = [3]
   \<and> (1 :: nat) < min (length custom_types) (length [3 :: size_t] + 1)
   \<and> Offset \<lparr>Elements = custom_types, NumOffsets = 2, size_mem = [3]\<rparr> 1
     = Offset \<lparr>Elements = custom_types, NumOffsets = 3, size_mem = [3, 2, 4]\<rparr> 1
   \<and> Offset \<lparr>Elements = custom_types, NumOffsets = 3, size_mem = [3, 2, 4]\<rparr> 1 = Inr 32"
proof -
  have legal: "\<forall>e\<in>set custom_types.
      AlignOf_static_assert e \<and> IsLegalElementType e"
    by (simp add: char_t_def int_t_def double_t_def IsPow2_def)
  have P1: "Partial custom_types [3] =
     Inr \<lparr>Elements = custom_types, NumOffsets = 2, size_mem = [3]\<rparr>"
    by (rule Partial_succeeds [THEN trans]) (simp_all add: legal del: set_simps)
  have P2: "Layout custom_types [3, 2, 4] =
     Inr \<lparr>Elements = custom_types, NumOffsets = 3, size_mem = [3, 2, 4]\<rparr>"
    unfolding Layout_eq_Partial [of "[3, 2, 4]" "custom_types", simplified]
    by (rule Partial_succeeds [THEN trans]) (simp_all add: legal del: set_simps)
  have len: "length [3 :: size_t] < length [3, 2, 4 :: size_t]" by simp
  have tk: "take (length [3 :: size_t]) [3, 2, 4 :: size_t] = [3]" by simp
  have idx: "(1 :: nat) < min (length custom_types) (length [3 :: size_t] + 1)"
    by simp
  have v: "Offset \<lparr>Elements = custom_types, NumOffsets = 3, size_mem = [3, 2, 4]\<rparr> 1 = Inr 32"
    by (simp add: char_t_def int_t_def Align_def)
  show ?thesis
    using partial_full_consistent [OF P1 disjI2 [OF P2] len tk idx] P1 P2 v by simp
qed

text \<open>
  Claim C6. \<open>Alignment()\<close> is the greatest of the alignments (natural or overridden) of
  all \<open>N\<close> element types, whatever counts are known; and when the first array's alignment
  is not zero, every address that is a multiple of \<open>Alignment()\<close> is accepted by
  \<open>Pointer<0>\<close>, which returns it unchanged, and is a multiple of the first array's
  alignment.
\<close>

theorem Alignment_is_max:
  assumes "Partial Ts cs = Inr L"
  shows "Alignment L = Max (AlignOf ` set Ts)
       \<and> (AlignOf (Ts ! 0) \<noteq> 0 \<longrightarrow>
            (\<forall>p. p mod Alignment L = 0 \<longrightarrow>
                 Pointer L 0 p = Inr p \<and> p mod AlignOf (Ts ! 0) = 0))"
proof -
  note P = Partial_Inr [OF assms]
  have mx: "Alignment L = Max (AlignOf ` set Ts)"
    using P(1,5) by (simp add: Alignment_def Alignment_of_Max)
  have fin: "finite (AlignOf ` set Ts)" and ne: "AlignOf ` set Ts \<noteq> {}" using P(5) by simp_all
  have "Alignment L \<in> AlignOf ` set Ts" unfolding mx using fin ne by (rule Max_in)
  then obtain e where e: "e \<in> set Ts" "Alignment L = AlignOf e" by blast
  then have powA: "IsPow2 (Alignment L)" using P(6) legal_IsPow2 by simp
  have hd_in: "Ts ! 0 \<in> set Ts" using P(5) by simp
  then have pow0: "IsPow2 (AlignOf (Ts ! 0))" using P(6) legal_IsPow2 by blast
  have le: "AlignOf (Ts ! 0) \<le> Alignment L"
    unfolding mx using fin hd_in by (intro Max_ge) simp_all
  have ptr: "Pointer L 0 p = Inr p \<and> p mod AlignOf (Ts ! 0) = 0"
    if nz: "AlignOf (Ts ! 0) \<noteq> 0" and al: "p mod Alignment L = 0" for p
  proof -
    have "Alignment L \<noteq> 0" using nz le by auto
    then have "Pointer L 0 p = Inr p" using al by (simp add: Pointer_def)
    moreover have "p mod AlignOf (Ts ! 0) = 0"
      using pow0 nz powA le al by (rule pow2_mod_trans)
    ultimately show ?thesis ..
  qed
  show ?thesis
  proof (intro conjI impI allI)
    show "Alignment L = Max (AlignOf ` set Ts)" by (rule mx)
  next
    fix p
    assume "AlignOf (Ts ! 0) \<noteq> 0" and "p mod Alignment L = 0"
    then show "Pointer L 0 p = Inr p" by (rule ptr [THEN conjunct1])
  next
    fix p
    assume "AlignOf (Ts ! 0) \<noteq> 0" and "p mod Alignment L = 0"
    then show "p mod AlignOf (Ts ! 0) = 0" by (rule ptr [THEN conjunct2])
  qed
qed

theorem Alignment_is_max_witness:
  "Partial custom_types [3] = Inr \<lparr>Elements = custom_types, NumOffsets = 2, size_mem = [3]\<rparr>
   \<and> Alignment \<lparr>Elements = custom_types, NumOffsets = 2, size_mem = [3]\<rparr> = 32
   \<and> Max (AlignOf ` set custom_types) = 32
   \<and> AlignOf (custom_types ! 0) \<noteq> 0
   \<and> (64 :: uintptr_t) mod Alignment \<lparr>Elements = custom_types, NumOffsets = 2, size_mem = [3]\<rparr> = 0
   \<and> Pointer \<lparr>Elements = custom_types, NumOffsets = 2, size_mem = [3]\<rparr> 0 64 = Inr 64
   \<and> (64 :: uintptr_t) mod AlignOf (custom_types ! 0) = 0"
proof -
  have P: "Partial custom_types [3] = Inr \<lparr>Elements = custom_types, NumOffsets = 2, size_mem = [3]\<rparr>"
    using custom_Partial [of "[3]"] by simp
  show ?thesis
    using Alignment_is_max [OF P] P
    by (simp add: Alignment_def Pointer_def char_t_def int_t_def double_t_def)
qed

text \<open>
  Claim C7 fails for the override 0. \<open>Aligned<int, 0>\<close> names an override that is no
  power of two and is below \<open>alignof(int)\<close>, yet \<open>0 % alignof(int) == 0\<close> and
  \<open>IsPow2(0)\<close> hold, so both compile-time checks pass and a descriptor is built.
\<close>

theorem zero_override_accepted:
  "unat (0 :: size_t) \<notin> range ((^) 2)
   \<and> (0 :: size_t) < alignof int_t
   \<and> IsPow2 0
   \<and> AlignOf_static_assert (Aligned int_t 0)
   \<and> IsLegalElementType (Aligned int_t 0)
   \<and> check_element (Aligned int_t 0) = None
   \<and> Partial [Aligned int_t 0] [] =
       Inr \<lparr>Elements = [Aligned int_t 0], NumOffsets = 1, size_mem = []\<rparr>"
  by (auto simp add: Partial_def LayoutType_def LayoutImpl_def Min_sz_def check_elements_def check_element_def
      int_t_def IsPow2_def)

text \<open>
  Claim C8. For \<open>Layout<char, Aligned<int, 32>, double>\<close> with counts \<open>(3, 2, 4)\<close>, the
  arrays taken by index as the test does: \<open>Alignment()\<close> is 32, the offsets are 0, 32 and
  40, and \<open>AllocSize()\<close> is 72.
\<close>

theorem custom_alignment_scenario:
  "Layout custom_types [3, 2, 4] =
     Inr \<lparr>Elements = custom_types, NumOffsets = 3, size_mem = [3, 2, 4]\<rparr>
   \<and> Alignment \<lparr>Elements = custom_types, NumOffsets = 3, size_mem = [3, 2, 4]\<rparr> = 32
   \<and> Offset \<lparr>Elements = custom_types, NumOffsets = 3, size_mem = [3, 2, 4]\<rparr> 0 = Inr 0
   \<and> Offset \<lparr>Elements = custom_types, NumOffsets = 3, size_mem = [3, 2, 4]\<rparr> 1 = Inr 32
   \<and> Offset \<lparr>Elements = custom_types, NumOffsets = 3, size_mem = [3, 2, 4]\<rparr> 2 = Inr 40
   \<and> AllocSize \<lparr>Elements = custom_types, NumOffsets = 3, size_mem = [3, 2, 4]\<rparr> = Inr 72"
proof -
  have "Layout custom_types [3, 2, 4] =
     Inr \<lparr>Elements = custom_types, NumOffsets = 3, size_mem = [3, 2, 4]\<rparr>"
    by (simp add: Layout_def LayoutType_def LayoutImpl_def Min_sz_def check_elements_def check_element_def
        char_t_def int_t_def double_t_def IsPow2_def)
  moreover have "Alignment \<lparr>Elements = custom_types, NumOffsets = 3, size_mem = [3, 2, 4]\<rparr> = 32"
    by (simp add: Alignment_def char_t_def int_t_def double_t_def)
  moreover have "Offset \<lparr>Elements = custom_types, NumOffsets = 3, size_mem = [3, 2, 4]\<rparr> 1 = Inr 32"
    by (simp add: char_t_def int_t_def Align_def)
  moreover have o2: "Offset \<lparr>Elements = custom_types, NumOffsets = 3, size_mem = [3, 2, 4]\<rparr> 2 = Inr 40"
    by (simp add: eval_nat_numeral char_t_def int_t_def double_t_def Align_def)
  moreover have "AllocSize \<lparr>Elements = custom_types, NumOffsets = 3, size_mem = [3, 2, 4]\<rparr> = Inr 72"
    by (simp add: AllocSize_def NumTypes_def NumSizes_def eval_nat_numeral
        char_t_def int_t_def double_t_def Align_def)
  ultimately show ?thesis by simp
qed

text \<open>
  Claim C9. For \<open>size_t\<close> values \<open>n\<close> and \<open>m\<close> with \<open>m\<close> a power of two and
  \<open>n + m - 1\<close> not overflowing \<open>size_t\<close>, the value \<open>(n + m - 1) & ~(m - 1)\<close> that
  \<open>Align\<close> computes is \<open>ceil(n / m) * m\<close>, the smallest multiple of \<open>m\<close> that is at
  least \<open>n\<close>.
\<close>

theorem Align_rounds_up:
  assumes "k < 64" and "m = 2 ^ k" and "unat n + unat m - 1 < 2 ^ 64"
  shows "int (unat (Align n m)) = \<lceil>real (unat n) / real (unat m)\<rceil> * int (unat m)
       \<and> unat m dvd unat (Align n m)
       \<and> unat n \<le> unat (Align n m)
       \<and> (\<forall>q. unat m dvd q \<and> unat n \<le> q \<longrightarrow> unat (Align n m) \<le> q)"
proof -
  have um: "unat m = 2 ^ k" using assms(1,2) by (simp add: unat_exp)
  have pos: "0 < unat m" using um by simp
  have ex: "unat (Align n m) = (unat n + unat m - 1) div unat m * unat m"
    using unat_Align_exact [of k n] assms um by simp
  show ?thesis
    unfolding ex
    using round_up_least [where a = "unat n" and b = "unat m", OF pos]
      ceiling_nat_div [OF pos, of "unat n"]
    by simp
qed

theorem Align_rounds_up_witness:
  "(5 :: nat) < 64 \<and> (32 :: size_t) = 2 ^ 5 \<and> unat (3 :: size_t) + unat (32 :: size_t) - 1 < 2 ^ 64
   \<and> int (unat (Align 3 32)) = \<lceil>real (unat (3 :: size_t)) / real (unat (32 :: size_t))\<rceil> * int (unat (32 :: size_t))
   \<and> unat (Align 3 32) = 32"
  using Align_rounds_up [of 5 32 3] by (simp add: Align_def)

text \<open>
  Claim C10. A descriptor built from the counts \<open>c_0, ..., c_{K-1}\<close> holds exactly
  these: \<open>Size<i>()\<close> returns \<open>c_i\<close> for \<open>i < K\<close> (and is rejected for other \<open>i\<close>), and
  \<open>Sizes()\<close> returns them all in argument order. After any sequence of calls of its
  member functions, with any arguments and whether or not a call is accepted, the object
  is the same descriptor: it holds the same counts, and \<open>Size<i>()\<close> and \<open>Sizes()\<close>
  still return them.
\<close>

theorem counts_stored:
  assumes "Partial Ts cs = Inr L"
  shows "size_mem L = cs \<and> Sizes L = Inr cs
       \<and> (\<forall>i. (i < length cs \<longrightarrow> Size L i = Inr (cs ! i))
              \<and> (length cs \<le> i \<longrightarrow> Size L i = Inl IndexOutOfBounds))
       \<and> (\<forall>tn asan ops.
             snd (run tn asan ops L) = L
           \<and> size_mem (snd (run tn asan ops L)) = cs
           \<and> Sizes (snd (run tn asan ops L)) = Inr cs
           \<and> (\<forall>i. i < length cs \<longrightarrow> Size (snd (run tn asan ops L)) i = Inr (cs ! i)))"
proof -
  have stored: "size_mem L = cs" by (rule Partial_Inr(2) [OF assms])
  have all: "Sizes L = Inr cs" using Sizes_eq [of L] stored by simp
  have each: "(i < length cs \<longrightarrow> Size L i = Inr (cs ! i))
      \<and> (length cs \<le> i \<longrightarrow> Size L i = Inl IndexOutOfBounds)" for i
    using stored by (simp add: Size_def NumSizes_def)
  have kept: "snd (run tn asan ops L) = L" for tn asan ops
    by (rule run_keeps)
  show ?thesis
    unfolding kept using stored all each by simp
qed

theorem counts_stored_witness:
  "Partial custom_types [3, 2] =
     Inr \<lparr>Elements = custom_types, NumOffsets = 3, size_mem = [3, 2]\<rparr>
   \<and> Sizes \<lparr>Elements = custom_types, NumOffsets = 3, size_mem = [3, 2]\<rparr> = Inr [3, 2]
   \<and> Size \<lparr>Elements = custom_types, NumOffsets = 3, size_mem = [3, 2]\<rparr> 1 = Inr 2
   \<and> Size \<lparr>Elements = custom_types, NumOffsets = 3, size_mem = [3, 2]\<rparr> 2 = Inl IndexOutOfBounds
   \<and> run (\<lambda>T. []) False [CallSize 0, CallOffset 1, CallAllocSize, CallSizes]
         \<lparr>Elements = custom_types, NumOffsets = 3, size_mem = [3, 2]\<rparr> =
       ([Inr (Number 3), Inr (Number 32), Inl SizesNotAllSpecified, Inr (Numbers [3, 2])],
        \<lparr>Elements = custom_types, NumOffsets = 3, size_mem = [3, 2]\<rparr>)
   \<and> Sizes (snd (run (\<lambda>T. []) False [CallSize 0, CallOffset 1, CallAllocSize, CallSizes]
         \<lparr>Elements = custom_types, NumOffsets = 3, size_mem = [3, 2]\<rparr>)) = Inr [3, 2]"
proof -
  have P: "Partial custom_types [3, 2] =
     Inr \<lparr>Elements = custom_types, NumOffsets = 3, size_mem = [3, 2]\<rparr>"
    using custom_Partial [of "[3, 2]"] by simp
  have R: "run (\<lambda>T. []) False [CallSize 0, CallOffset 1, CallAllocSize, CallSizes]
         \<lparr>Elements = custom_types, NumOffsets = 3, size_mem = [3, 2]\<rparr> =
       ([Inr (Number 3), Inr (Number 32), Inl SizesNotAllSpecified, Inr (Numbers [3, 2])],
        \<lparr>Elements = custom_types, NumOffsets = 3, size_mem = [3, 2]\<rparr>)"
    by (simp add: Size_def Sizes_def NumSizes_def NumTypes_def AllocSize_def
        char_t_def int_t_def Align_def)
  show ?thesis
    using counts_stored [OF P] P R by (simp add: Size_def NumSizes_def)
qed

end
